theory Spec2Isabelle
  imports Complex_Main
begin

section \<open>The nonlinear solver of package num (NlSolver)\<close>

text \<open>
  This theory embeds \<open>NlSolver\<close> (\<open>Init\<close>, \<open>SetTols\<close>, \<open>Solve\<close>) of package \<open>num\<close>.

  Conventions of the embedding:
  \<^item> a \<open>float64\<close> is a \<open>real\<close>: rounding, infinities and NaN are not represented, so the
    theorems below speak about the control flow of the solver and about the formulas it
    evaluates, not about rounding. A division by zero, which gives an infinity or NaN in
    Go, is 0 here; inputs that lead to one (\<open>rtol = 0\<close>, a zero component of the scaling
    vector, no equation at all) are outside the embedding;
  \<^item> a Go \<open>int\<close> counter is an \<open>int\<close> (the counters cannot reach 2^63 in a run); the
    number of equations is a \<open>nat\<close> (with a negative one the allocations of \<open>Init\<close>
    panic);
  \<^item> a slice or \<open>la.Vector\<close> is a list, a dense \<open>la.Matrix\<close> is the list of its rows and an
    \<open>la.Triplet\<close> is the list of its (row, column, value) entries;
  \<^item> a callback is a function from the point \<open>x\<close> to what it writes into its output
    buffer; a callback that may be \<open>nil\<close> is an \<open>option\<close>;
  \<^item> \<open>chk.Panic\<close> and run-time panics are \<open>Inl\<close> results;
  \<^item> printing (\<open>msg\<close>, controlled by \<open>silent\<close>) and the observer callback \<open>Out\<close> do not
    touch the solver and are left out;
  \<^item> the linear-algebra capability of package \<open>la\<close> and the line search are not among the
    sources; they are parameters, collected in the record \<open>la_caps\<close>.
\<close>

type_synonym Vector = "real list"
type_synonym Matrix = "real list list"
type_synonym Triplet = "(nat \<times> nat \<times> real) list"

datatype error =
    InvalidParameter string  \<comment> \<open>parameter named k is invalid\<close>
  | CannotConverge int  \<comment> \<open>cannot converge after n iterations\<close>
  | Diverging real real real  \<comment> \<open>solver is diverging with Theta (Ldx, LdxPrev)\<close>
  | NilCallback  \<comment> \<open>call of a nil function value\<close>
  | LinSolveFailed  \<comment> \<open>the inversion or factorisation panicked\<close>
  | IndexOutOfRange  \<comment> \<open>slice index out of range\<close>

text \<open>
  The external collaborators. \<open>MACHEPS\<close> is the machine epsilon, a constant of package
  \<open>num\<close> declared outside the sources. \<open>MatInv\<close> and \<open>lis_Fact\<close> return \<open>None\<close> where the library
  panics (singular matrix). \<open>lis_Fact\<close> factorises the triplet the solver was initialised
  with and yields a factorisation, \<open>lis_Solve\<close> uses it. \<open>LineSearch\<close> returns the new
  \<open>x\<close>, the new \<open>fx\<close> and the number of function evaluations it made. \<open>fd_delta\<close> is the
  perturbation the numerical Jacobian applies to a component.
\<close>

record 'h la_caps =
  MACHEPS :: real
  MatInv :: "Matrix \<Rightarrow> Matrix option"
  lis_Fact :: "Triplet \<Rightarrow> 'h option"
  lis_Solve :: "'h \<Rightarrow> Vector \<Rightarrow> Vector"
  LineSearch :: "(Vector \<Rightarrow> Vector) \<Rightarrow> Vector \<Rightarrow> Vector \<Rightarrow> Vector \<Rightarrow> Vector \<Rightarrow> Vector
                  \<Rightarrow> real \<Rightarrow> int \<Rightarrow> Vector \<times> Vector \<times> int"
  fd_delta :: "real \<Rightarrow> real"

text \<open>
  The struct. \<open>lis\<close> holds the current factorisation of the sparse solver. \<open>NFact\<close> is a
  ghost field, not in the source: it counts the factorisations made (calls of
  \<open>lis.Fact\<close> in sparse mode, of \<open>la.MatInv\<close> in dense mode).
\<close>

record 'h NlSolver =
  cteJac :: bool
  linSearch :: bool
  linSchMaxIt :: int
  maxIt :: int
  chkConv :: bool
  atol :: real
  rtol :: real
  ftol :: real
  fnewt :: real
  neq :: nat
  scal :: Vector
  fx :: Vector
  mdx :: Vector
  useDn :: bool
  numJ :: bool
  Ffcn :: "Vector \<Rightarrow> Vector"
  JfcnSp :: "(Vector \<Rightarrow> Triplet) option"
  JfcnDn :: "(Vector \<Rightarrow> Matrix) option"
  Jtri :: Triplet
  w :: Vector
  lis :: "'h option"
  lsReady :: bool
  J :: Matrix
  Ji :: Matrix
  phi :: real
  dphidx :: Vector
  x0 :: Vector
  It :: int
  NFeval :: int
  NJeval :: int
  NFact :: nat

subsection \<open>Helpers of packages la, utl and num that Solve calls\<close>

definition NewVector :: "nat \<Rightarrow> Vector" where
  "NewVector n = replicate n 0"

definition NewMatrix :: "nat \<Rightarrow> nat \<Rightarrow> Matrix" where
  "NewMatrix m n = replicate m (replicate n 0)"

text \<open>
  Modelled from the spec: \<open>la.VecScaleAbs\<close> is not among the sources. The spec gives
  \<open>scal = atol + rtol * |y|\<close>, and the call site documents the same
  (\<open>scal = Atol + Rtol*abs(x)\<close>).
\<close>

definition VecScaleAbs :: "real \<Rightarrow> real \<Rightarrow> Vector \<Rightarrow> Vector" where
  "VecScaleAbs a m x = map (\<lambda>xi. a + m * \<bar>xi\<bar>) x"

text \<open>
  Modelled from the spec: \<open>la.Vector.Largest\<close> is not among the sources. It is the largest
  absolute value of a component (of a vector that has one), divided by \<open>den\<close>.
\<close>

definition Largest :: "Vector \<Rightarrow> real \<Rightarrow> real" where
  "Largest u den = fold (\<lambda>v m. max m \<bar>v\<bar>) u 0 / den"

text \<open>
  Modelled from the spec: \<open>la.VecDot\<close> and \<open>la.SpTriMatTrVecMul\<close> are not among the
  sources. The call sites document them as the dot product and as the product of the
  transposed triplet with a vector.
\<close>

definition VecDot :: "Vector \<Rightarrow> Vector \<Rightarrow> real" where
  "VecDot u v = fold (\<lambda>(a, b) r. r + a * b) (zip u v) 0"

definition SpTriMatTrVecMul :: "nat \<Rightarrow> Triplet \<Rightarrow> Vector \<Rightarrow> Vector" where
  "SpTriMatTrVecMul n T u = fold (\<lambda>(i, j, v) y. y[j := y ! j + v * u ! i]) T (replicate n 0)"

text \<open>
  Modelled from the spec: the numerical Jacobian \<open>num.Jacobian\<close> is not among the sources.
  The spec describes one-sided finite differences that use the residual \<open>fx\<close> already
  evaluated at the base point: column \<open>col\<close> perturbs component \<open>col\<close> of \<open>x\<close> by \<open>delta\<close>,
  evaluates the function once there, and stores \<open>(f(x + delta e_col) - fx) / delta\<close>.
\<close>

definition Jacobian_col :: "(real \<Rightarrow> real) \<Rightarrow> (Vector \<Rightarrow> Vector) \<Rightarrow> Vector \<Rightarrow> Vector \<Rightarrow> nat \<Rightarrow> Triplet" where
  "Jacobian_col delta ffcn x fx0 col =
     (let d = delta (x ! col);
          wv = ffcn (x[col := x ! col + d])
      in map (\<lambda>row. (row, col, (wv ! row - fx0 ! row) / d)) [0..<length x])"

definition Jacobian :: "(real \<Rightarrow> real) \<Rightarrow> (Vector \<Rightarrow> Vector) \<Rightarrow> Vector \<Rightarrow> Vector \<Rightarrow> Triplet" where
  "Jacobian delta ffcn x fx0 = concat (map (Jacobian_col delta ffcn x fx0) [0..<length x])"

text \<open>Go's conversion \<open>int(v)\<close> of a \<open>float64\<close> truncates towards zero.\<close>

definition go_int :: "real \<Rightarrow> int" where
  "go_int v = (if 0 \<le> v then \<lfloor>v\<rfloor> else \<lceil>v\<rceil>)"

subsection \<open>SetTols and Init\<close>

definition SetTols :: "'h NlSolver \<Rightarrow> real \<Rightarrow> real \<Rightarrow> real \<Rightarrow> real \<Rightarrow> 'h NlSolver" where
  "SetTols o' Atol Rtol Ftol eps =
     o'\<lparr>atol := Atol, rtol := Rtol, ftol := Ftol,
        fnewt := max (10 * eps / Rtol) (min 0.03 (sqrt Rtol))\<rparr>"

text \<open>
  The loop over the parameter map. A Go map has each key once and is ranged over in an
  unspecified order; the list gives the order of one run. The accumulator is the struct
  with the three local tolerances.
\<close>

definition read_prm :: "string \<times> real \<Rightarrow> 'h NlSolver \<times> real \<times> real \<times> real
    \<Rightarrow> error + ('h NlSolver \<times> real \<times> real \<times> real)" where
  "read_prm kv acc =
     (case kv of (k, v) \<Rightarrow> case acc of (o', atl, rtl, ftl) \<Rightarrow>
        if k = ''cteJac'' then Inr (o'\<lparr>cteJac := (v > 0)\<rparr>, atl, rtl, ftl)
        else if k = ''linSearch'' then Inr (o'\<lparr>linSearch := (v > 0)\<rparr>, atl, rtl, ftl)
        else if k = ''linSchMaxIt'' then Inr (o'\<lparr>linSchMaxIt := go_int v\<rparr>, atl, rtl, ftl)
        else if k = ''maxIt'' then Inr (o'\<lparr>maxIt := go_int v\<rparr>, atl, rtl, ftl)
        else if k = ''chkConv'' then Inr (o'\<lparr>chkConv := (v > 0)\<rparr>, atl, rtl, ftl)
        else if k = ''atol'' then Inr (o', v, rtl, ftl)
        else if k = ''rtol'' then Inr (o', atl, v, ftl)
        else if k = ''ftol'' then Inr (o', atl, rtl, v)
        else Inl (InvalidParameter k))"

fun read_prms :: "(string \<times> real) list \<Rightarrow> 'h NlSolver \<times> real \<times> real \<times> real
    \<Rightarrow> error + ('h NlSolver \<times> real \<times> real \<times> real)" where
  "read_prms [] acc = Inr acc"
| "read_prms (kv # kvs) acc =
     (case read_prm kv acc of Inl e \<Rightarrow> Inl e | Inr acc' \<Rightarrow> read_prms kvs acc')"

definition Init :: "'h la_caps \<Rightarrow> 'h NlSolver \<Rightarrow> nat \<Rightarrow> (Vector \<Rightarrow> Vector)
    \<Rightarrow> (Vector \<Rightarrow> Triplet) option \<Rightarrow> (Vector \<Rightarrow> Matrix) option \<Rightarrow> bool \<Rightarrow> bool
    \<Rightarrow> (string \<times> real) list \<Rightarrow> error + 'h NlSolver" where
  "Init L o' n ffcn jfcnSp jfcnDn usedn numj prms =
     (let o1 = o'\<lparr>cteJac := False, linSearch := False, linSchMaxIt := 20, maxIt := 20,
                  chkConv := False\<rparr>
      in case read_prms prms (o1, 1 / 10 ^ 8, 1 / 10 ^ 8, 1 / 10 ^ 9) of
           Inl e \<Rightarrow> Inl e
         | Inr (o2, atl, rtl, ftl) \<Rightarrow>
             let o3 = SetTols o2 atl rtl ftl (MACHEPS L);
                 o4 = o3\<lparr>neq := n, scal := NewVector n, fx := NewVector n, mdx := NewVector n\<rparr>;
                 o5 = o4\<lparr>Ffcn := ffcn, JfcnSp := jfcnSp, JfcnDn := jfcnDn\<rparr>;
                 o6 = o5\<lparr>useDn := usedn, numJ := numj\<rparr>;
                 o7 = (if useDn o6 then o6\<lparr>J := NewMatrix n n, Ji := NewMatrix n n\<rparr>
                       else let o8 = o6\<lparr>Jtri := []\<rparr>;
                                o9 = (if jfcnSp = None then o8\<lparr>numJ := True\<rparr> else o8)
                            in (if numJ o9 then o9\<lparr>w := NewVector n\<rparr> else o9))
             in Inr (o7\<lparr>dphidx := NewVector n, x0 := NewVector n\<rparr>))"

text \<open>The accepted option names of \<open>Init\<close>.\<close>

definition accepted_prms :: "string set" where
  "accepted_prms = {''cteJac'', ''linSearch'', ''linSchMaxIt'', ''maxIt'', ''chkConv'',
                    ''atol'', ''rtol'', ''ftol''}"


subsection \<open>Solve\<close>

text \<open>
  The Jacobian is evaluated at \<open>x\<close> in the first iteration, and in every iteration unless
  \<open>cteJac\<close> is set. The workspace \<open>w\<close> of the numerical Jacobian is working memory and is
  not tracked.
\<close>

definition evalJ :: "'h la_caps \<Rightarrow> 'h NlSolver \<Rightarrow> Vector \<Rightarrow> error + 'h NlSolver" where
  "evalJ L s x =
     (if It s = 0 \<or> \<not> cteJac s then
        (case (if useDn s then
                 (case JfcnDn s of None \<Rightarrow> Inl NilCallback
                  | Some jf \<Rightarrow> Inr (s\<lparr>J := jf x\<rparr>))
               else if numJ s then
                 Inr (s\<lparr>Jtri := Jacobian (fd_delta L) (Ffcn s) x (fx s),
                        NFeval := NFeval s + int (neq s)\<rparr>)
               else
                 (case JfcnSp s of None \<Rightarrow> Inl NilCallback
                  | Some jf \<Rightarrow> Inr (s\<lparr>Jtri := jf x\<rparr>)))
         of Inl e \<Rightarrow> Inl e
          | Inr s1 \<Rightarrow> Inr (s1\<lparr>NJeval := NJeval s1 + 1\<rparr>))
      else Inr s)"

text \<open>
  The linear system: the dense branch inverts \<open>J\<close> and multiplies, the sparse branch
  initialises the solver once, then factorises and solves.
\<close>

definition linsolve :: "'h la_caps \<Rightarrow> 'h NlSolver \<Rightarrow> error + 'h NlSolver" where
  "linsolve L s =
     (if useDn s then
        (case MatInv L (J s) of None \<Rightarrow> Inl LinSolveFailed
         | Some ji \<Rightarrow>
             Inr (s\<lparr>Ji := ji, NFact := NFact s + 1,
                    mdx := map (\<lambda>i. fold (\<lambda>j a. a + ji ! i ! j * fx s ! j) [0..<neq s] 0)
                             [0..<neq s],
                    dphidx := map (\<lambda>i. fold (\<lambda>j a. a + J s ! j ! i * fx s ! j) [0..<neq s] 0)
                                [0..<neq s],
                    phi := fold (\<lambda>i a. a + fx s ! i * fx s ! i) [0..<neq s] 0 * 0.5\<rparr>))
      else
        (let s1 = (if \<not> lsReady s then s\<lparr>lsReady := True\<rparr> else s)
         in case lis_Fact L (Jtri s1) of None \<Rightarrow> Inl LinSolveFailed
            | Some h \<Rightarrow>
                let s2 = s1\<lparr>lis := Some h, NFact := NFact s1 + 1\<rparr>;
                    s3 = s2\<lparr>mdx := lis_Solve L h (fx s2)\<rparr>
                in Inr (if linSearch s3
                        then s3\<lparr>phi := 0.5 * VecDot (fx s3) (fx s3),
                                dphidx := SpTriMatTrVecMul (neq s3) (Jtri s3) (fx s3)\<rparr>
                        else s3)))"

text \<open>
  The scaled root-mean-square norm of a step \<open>d\<close>, as the two loops of \<open>Solve\<close>
  accumulate it.
\<close>

definition rms_scaled :: "nat \<Rightarrow> (nat \<Rightarrow> real) \<Rightarrow> Vector \<Rightarrow> real" where
  "rms_scaled n d sc =
     sqrt (fold (\<lambda>i a. a + (d i / sc ! i) * (d i / sc ! i)) [0..<n] 0 / real n)"

text \<open>The loop "update x": saves \<open>x\<close> in \<open>x0\<close>, subtracts \<open>mdx\<close> and computes \<open>Ldx\<close>.\<close>

definition update_x :: "'h NlSolver \<Rightarrow> Vector \<Rightarrow> 'h NlSolver \<times> Vector \<times> real" where
  "update_x s x =
     (s\<lparr>x0 := map (\<lambda>i. x ! i) [0..<neq s]\<rparr>,
      fold (\<lambda>i y. y[i := y ! i - mdx s ! i]) [0..<neq s] x,
      rms_scaled (neq s) (\<lambda>i. mdx s ! i) (scal s))"

text \<open>
  One Newton update: Jacobian, linear system, new \<open>x\<close> with its \<open>Ldx\<close>, and the function
  at the new \<open>x\<close>. Indexing \<open>x\<close> beyond its length panics.
\<close>

definition newton_update :: "'h la_caps \<Rightarrow> 'h NlSolver \<Rightarrow> Vector
    \<Rightarrow> error + ('h NlSolver \<times> Vector \<times> real)" where
  "newton_update L s x =
     (case evalJ L s x of Inl e \<Rightarrow> Inl e
      | Inr s1 \<Rightarrow>
          case linsolve L s1 of Inl e \<Rightarrow> Inl e
          | Inr s2 \<Rightarrow>
              if length x < neq s2 then Inl IndexOutOfRange
              else case update_x s2 x of (s3, x3, Ldx) \<Rightarrow>
                     Inr (s3\<lparr>fx := Ffcn s3 x3, NFeval := NFeval s3 + 1\<rparr>, x3, Ldx))"

definition line_search_step :: "'h la_caps \<Rightarrow> 'h NlSolver \<Rightarrow> Vector
    \<Rightarrow> 'h NlSolver \<times> Vector \<times> real" where
  "line_search_step L s x =
     (case LineSearch L (Ffcn s) x (fx s) (mdx s) (x0 s) (dphidx s) (phi s) (linSchMaxIt s) of
        (x', fx', nfv) \<Rightarrow>
          (s\<lparr>fx := fx', NFeval := NFeval s + nfv\<rparr>, x',
           rms_scaled (neq s) (\<lambda>i. x' ! i - x0 s ! i) (scal s)))"

text \<open>
  The result of one pass through the loop body: \<open>break\<close>, the end of the body (with the
  \<open>Ldx\<close> that becomes \<open>LdxPrev\<close>), or a panic.
\<close>

datatype 'h step =
    Break "'h NlSolver" Vector
  | Continue "'h NlSolver" Vector real
  | Panic error

definition conv_rate :: "'h NlSolver \<Rightarrow> Vector \<Rightarrow> real \<Rightarrow> real \<Rightarrow> 'h step" where
  "conv_rate s x Ldx LdxPrev =
     (if It s > 0 \<and> chkConv s then
        (let Theta = Ldx / LdxPrev
         in if Theta > 0.99 then Panic (Diverging Theta Ldx LdxPrev)
            else Continue s x Ldx)
      else Continue s x Ldx)"

definition body :: "'h la_caps \<Rightarrow> 'h NlSolver \<Rightarrow> Vector \<Rightarrow> real \<Rightarrow> 'h step" where
  "body L s x LdxPrev =
     (if Largest (fx s) 1 < ftol s then Break s x
      else case newton_update L s x of Inl e \<Rightarrow> Panic e
           | Inr (s1, x1, Ldx) \<Rightarrow>
               if Largest (fx s1) 1 < ftol s1 then Break s1 x1
               else if Ldx < fnewt s1 then Break s1 x1
               else if linSearch s1 then
                 (case line_search_step L s1 x1 of (s2, x2, Ldx2) \<Rightarrow>
                    if Ldx2 < fnewt s2 then Break s2 x2
                    else conv_rate s2 x2 Ldx2 LdxPrev)
               else conv_rate s1 x1 Ldx LdxPrev)"

text \<open>
  The fields that no part of the loop body writes: what \<open>Init\<close> and \<open>SetTols\<close>
  configured, the scaling vector, and the loop counter itself.
\<close>

definition same_config :: "'h NlSolver \<Rightarrow> 'h NlSolver \<Rightarrow> bool" where
  "same_config s s' \<longleftrightarrow>
     It s' = It s \<and> maxIt s' = maxIt s \<and> scal s' = scal s \<and> neq s' = neq s \<and>
     cteJac s' = cteJac s \<and> chkConv s' = chkConv s \<and> linSearch s' = linSearch s \<and>
     linSchMaxIt s' = linSchMaxIt s \<and>
     ftol s' = ftol s \<and> fnewt s' = fnewt s \<and> atol s' = atol s \<and> rtol s' = rtol s \<and>
     useDn s' = useDn s \<and> numJ s' = numJ s \<and>
     Ffcn s' = Ffcn s \<and> JfcnSp s' = JfcnSp s \<and> JfcnDn s' = JfcnDn s"

lemma same_config_refl: "same_config s s"
  by (simp add: same_config_def)

lemma same_config_trans: "same_config s t \<Longrightarrow> same_config t u \<Longrightarrow> same_config s u"
  by (simp add: same_config_def)

lemma evalJ_config: "evalJ L s x = Inr s' \<Longrightarrow> same_config s s'"
  by (auto simp: evalJ_def same_config_def split: if_splits option.splits sum.splits)

lemma linsolve_config: "linsolve L s = Inr s' \<Longrightarrow> same_config s s'"
  by (auto simp: linsolve_def same_config_def Let_def split: if_splits option.splits)

lemma update_x_config: "update_x s x = (s', x', l) \<Longrightarrow> same_config s s'"
  by (auto simp: update_x_def same_config_def)

lemma newton_update_cases:
  assumes "newton_update L s x = Inr (s', x', Ldx)"
  obtains s1 s2 s3 where "evalJ L s x = Inr s1" and "linsolve L s1 = Inr s2"
    and "neq s2 \<le> length x" and "update_x s2 x = (s3, x', Ldx)"
    and "s' = s3\<lparr>fx := Ffcn s3 x', NFeval := NFeval s3 + 1\<rparr>"
  using assms unfolding newton_update_def
  by (auto split: sum.splits if_splits prod.splits)

lemma newton_update_config:
  assumes "newton_update L s x = Inr (s', x', Ldx)"
  shows "same_config s s'"
proof -
  from assms obtain s1 s2 s3 where e: "evalJ L s x = Inr s1" and l: "linsolve L s1 = Inr s2"
    and u: "update_x s2 x = (s3, x', Ldx)"
    and s': "s' = s3\<lparr>fx := Ffcn s3 x', NFeval := NFeval s3 + 1\<rparr>"
    by (rule newton_update_cases)
  have "same_config s3 s'"
    by (simp add: s' same_config_def)
  with evalJ_config [OF e] linsolve_config [OF l] update_x_config [OF u] show ?thesis
    by (blast intro: same_config_trans)
qed

lemma line_search_step_config: "line_search_step L s x = (s', x', Ldx) \<Longrightarrow> same_config s s'"
  by (auto simp: line_search_step_def same_config_def split: prod.splits)

lemma conv_rate_Continue:
  "conv_rate s x Ldx LdxPrev = Continue s' x' l \<Longrightarrow> s' = s \<and> x' = x \<and> l = Ldx"
  by (auto simp: conv_rate_def Let_def split: if_splits)

lemma conv_rate_not_Break: "conv_rate s x Ldx LdxPrev \<noteq> Break s' x'"
  by (auto simp: conv_rate_def Let_def)

text \<open>The ways through the loop body.\<close>

lemma body_Continue_cases:
  assumes "body L s x LdxPrev = Continue s' x' l"
  obtains (plain) s1 x1 Ldx where "newton_update L s x = Inr (s1, x1, Ldx)"
      and "\<not> linSearch s1" and "conv_rate s1 x1 Ldx LdxPrev = Continue s' x' l"
    | (search) s1 x1 Ldx where "newton_update L s x = Inr (s1, x1, Ldx)"
      and "linSearch s1" and "line_search_step L s1 x1 = (s', x', l)"
  using assms unfolding body_def
  by (auto split: sum.splits if_splits prod.splits dest!: conv_rate_Continue)

lemma body_Continue_config:
  assumes "body L s x LdxPrev = Continue s' x' l"
  shows "same_config s s'"
  using assms
proof (cases rule: body_Continue_cases)
  case (plain s1 x1 Ldx)
  then show ?thesis
    by (auto dest!: conv_rate_Continue newton_update_config)
next
  case (search s1 x1 Ldx)
  then show ?thesis
    by (blast intro: same_config_trans newton_update_config line_search_step_config)
qed

text \<open>
  The loop \<open>for o.It = 0; o.It < o.maxIt; o.It++\<close>, entered with \<open>It\<close> already set. Of the
  locals only \<open>LdxPrev\<close> is read before it is written, so only it is passed on.
\<close>

function iterations :: "'h la_caps \<Rightarrow> 'h NlSolver \<Rightarrow> Vector \<Rightarrow> real
    \<Rightarrow> error + ('h NlSolver \<times> Vector)" where
  "iterations L s x LdxPrev =
     (if It s < maxIt s then
        (case body L s x LdxPrev of
           Panic e \<Rightarrow> Inl e
         | Break s' x' \<Rightarrow> Inr (s', x')
         | Continue s' x' Ldx \<Rightarrow> iterations L (s'\<lparr>It := It s' + 1\<rparr>) x' Ldx)
      else Inr (s, x))"
  by pat_completeness auto
termination
proof (relation "measure (\<lambda>(L, s, x, l). nat (maxIt s - It s))")
  show "wf (measure (\<lambda>(L, s, x, l). nat (maxIt s - It s)))"
    by simp
next
  fix L :: "'h la_caps" and s :: "'h NlSolver" and x :: Vector and LdxPrev :: real
    and s' x' Ldx
  assume "It s < maxIt s" and "body L s x LdxPrev = Continue s' x' Ldx"
  then show "((L, s'\<lparr>It := It s' + 1\<rparr>, x', Ldx), (L, s, x, LdxPrev))
               \<in> measure (\<lambda>(L, s, x, l). nat (maxIt s - It s))"
    by (auto dest!: body_Continue_config simp: same_config_def)
qed

declare iterations.simps [simp del]

text \<open>
  The statements of \<open>Solve\<close> before the loop is entered: the scaling vector, the function
  at \<open>x\<close>, the counters, and the loop's \<open>o.It = 0\<close>.
\<close>

definition Solve_enter :: "'h NlSolver \<Rightarrow> Vector \<Rightarrow> 'h NlSolver" where
  "Solve_enter s x =
     (let s1 = s\<lparr>scal := VecScaleAbs (atol s) (rtol s) x\<rparr>;
          s2 = s1\<lparr>fx := Ffcn s1 x\<rparr>;
          s3 = s2\<lparr>NFeval := 1, NJeval := 0\<rparr>
      in s3\<lparr>It := 0\<rparr>)"

definition Solve :: "'h la_caps \<Rightarrow> 'h NlSolver \<Rightarrow> Vector \<Rightarrow> bool
    \<Rightarrow> error + ('h NlSolver \<times> Vector)" where
  "Solve L s x silent =
     (case iterations L (Solve_enter s x) x 0 of
        Inl e \<Rightarrow> Inl e
      | Inr (s4, x4) \<Rightarrow>
          if It s4 = maxIt s4 then Inl (CannotConverge (It s4))
          else Inr (s4, x4))"

subsection \<open>Notions used to state the properties\<close>

text \<open>
  \<open>passes L n s x LdxPrev\<close> runs the loop body \<open>n\<close> times from the loop state
  \<open>(s, x, LdxPrev)\<close>, with the loop's \<open>o.It++\<close> after each pass, and yields the loop state
  reached when each of the \<open>n\<close> passes ran to the end of the body (no \<open>break\<close>, no panic).
\<close>

fun passes :: "'h la_caps \<Rightarrow> nat \<Rightarrow> 'h NlSolver \<Rightarrow> Vector \<Rightarrow> real
    \<Rightarrow> ('h NlSolver \<times> Vector \<times> real) option" where
  "passes L 0 s x LdxPrev = Some (s, x, LdxPrev)"
| "passes L (Suc n) s x LdxPrev =
     (case body L s x LdxPrev of
        Continue s' x' Ldx \<Rightarrow> passes L n (s'\<lparr>It := It s' + 1\<rparr>) x' Ldx
      | Break s' x' \<Rightarrow> None
      | Panic e \<Rightarrow> None)"

text \<open>What a caller reads off a result of \<open>Solve\<close>: the counters and the final \<open>x\<close>.\<close>

definition stats :: "error + ('h NlSolver \<times> Vector) \<Rightarrow> error + (int \<times> int \<times> int \<times> nat \<times> Vector)" where
  "stats r = (case r of Inl e \<Rightarrow> Inl e
              | Inr (s, x) \<Rightarrow> Inr (It s, NFeval s, NJeval s, NFact s, x))"

definition loop_obs :: "('h NlSolver \<times> Vector \<times> real) option \<Rightarrow> (int \<times> Vector \<times> real) option" where
  "loop_obs r = (case r of None \<Rightarrow> None | Some (s, x, l) \<Rightarrow> Some (It s, x, l))"

text \<open>The external line search reports a count of function evaluations, never negative.\<close>

definition LineSearch_counts :: "'h la_caps \<Rightarrow> bool" where
  "LineSearch_counts L \<longleftrightarrow>
     (\<forall>f x g m y d p k. 0 \<le> snd (snd (LineSearch L f x g m y d p k)))"

subsection \<open>Concrete solvers for one equation\<close>

text \<open>The zero value of the struct (\<open>var nls NlSolver\<close>).\<close>

definition NlSolver_zero :: "real NlSolver" where
  "NlSolver_zero =
     \<lparr>cteJac = False, linSearch = False, linSchMaxIt = 0, maxIt = 0, chkConv = False,
      atol = 0, rtol = 0, ftol = 0, fnewt = 0, neq = 0, scal = [], fx = [], mdx = [],
      useDn = False, numJ = False, Ffcn = (\<lambda>x. []), JfcnSp = None, JfcnDn = None,
      Jtri = [], w = [], lis = None, lsReady = False, J = [], Ji = [], phi = 0,
      dphidx = [], x0 = [], It = 0, NFeval = 0, NJeval = 0, NFact = 0\<rparr>"

text \<open>
  A linear-algebra capability for systems of one equation: the inverse of the 1 x 1
  matrix, the factorisation of a one-entry triplet (its value), and a line search that
  keeps the Newton step.
\<close>

definition caps1 :: "real la_caps" where
  "caps1 =
     \<lparr>MACHEPS = 1 / 10 ^ 16,
      MatInv = (\<lambda>m. if hd (hd m) = 0 then None else Some [[1 / hd (hd m)]]),
      lis_Fact = (\<lambda>t. if snd (snd (hd t)) = 0 then None else Some (snd (snd (hd t)))),
      lis_Solve = (\<lambda>h b. map (\<lambda>v. v / h) b),
      LineSearch = (\<lambda>f x g m y d p k. (x, g, 0)),
      fd_delta = (\<lambda>v. 1)\<rparr>"

text \<open>
  Three functions of one unknown: a constant residual (no root), a residual that vanishes
  from \<open>x = -3\<close> downwards, and \<open>f(x) = x - 1\<close>; all with the Jacobian \<open>1\<close>.
\<close>

definition f_const :: "Vector \<Rightarrow> Vector" where
  "f_const x = [1]"

definition f_step :: "Vector \<Rightarrow> Vector" where
  "f_step x = [if x ! 0 \<le> - 3 then 0 else 1]"

definition f_lin :: "Vector \<Rightarrow> Vector" where
  "f_lin x = [x ! 0 - 1]"

definition J_one_Sp :: "Vector \<Rightarrow> Triplet" where
  "J_one_Sp x = [(0, 0, 1)]"

definition J_one_Dn :: "Vector \<Rightarrow> Matrix" where
  "J_one_Dn x = [[1]]"

text \<open>
  \<open>mk_solver\<close> initialises the zero value for one equation, sparse or dense, with
  \<open>atol = rtol = 1\<close> besides the given parameters.
\<close>

definition mk_solver :: "(Vector \<Rightarrow> Vector) \<Rightarrow> bool \<Rightarrow> (string \<times> real) list \<Rightarrow> real NlSolver" where
  "mk_solver f usedn prms =
     (case Init caps1 NlSolver_zero 1 f (Some J_one_Sp) (Some J_one_Dn) usedn False
             ((''atol'', 1) # (''rtol'', 1) # prms) of
        Inr s \<Rightarrow> s
      | Inl e \<Rightarrow> NlSolver_zero)"

text \<open>
  The same with no analytic Jacobian at all (\<open>JfcnSp = nil\<close>, \<open>JfcnDn = nil\<close>), sparse.
\<close>

definition mk_solver_numJ :: "(Vector \<Rightarrow> Vector) \<Rightarrow> (string \<times> real) list \<Rightarrow> real NlSolver" where
  "mk_solver_numJ f prms =
     (case Init caps1 NlSolver_zero 1 f None None False False
             ((''atol'', 1) # (''rtol'', 1) # prms) of
        Inr s \<Rightarrow> s
      | Inl e \<Rightarrow> NlSolver_zero)"

section \<open>Properties of the loop body and of the loop\<close>

subsection \<open>What the parts of the loop body do to the counters\<close>

lemma evalJ_counters:
  assumes "evalJ L s x = Inr s'"
  shows "NFeval s \<le> NFeval s'"
    and "NJeval s' = (if It s = 0 \<or> \<not> cteJac s then NJeval s + 1 else NJeval s)"
    and "NFact s' = NFact s" and "fx s' = fx s"
    and "\<not> (It s = 0 \<or> \<not> cteJac s) \<Longrightarrow> s' = s"
  using assms
  by (auto simp: evalJ_def split: if_splits option.splits sum.splits)

lemma linsolve_counters:
  assumes "linsolve L s = Inr s'"
  shows "NFeval s' = NFeval s" and "NJeval s' = NJeval s" and "NFact s' = NFact s + 1"
    and "J s' = J s" and "Jtri s' = Jtri s" and "fx s' = fx s"
  using assms
  by (auto simp: linsolve_def Let_def split: if_splits option.splits)

lemma update_x_counters:
  assumes "update_x s x = (s', x', l)"
  shows "NFeval s' = NFeval s" and "NJeval s' = NJeval s" and "NFact s' = NFact s"
    and "J s' = J s" and "Jtri s' = Jtri s" and "mdx s' = mdx s"
  using assms by (auto simp: update_x_def)

lemma newton_update_counters:
  assumes "newton_update L s x = Inr (s', x', Ldx)"
  shows "NFeval s < NFeval s'"
    and "NJeval s' = (if It s = 0 \<or> \<not> cteJac s then NJeval s + 1 else NJeval s)"
    and "NFact s' = NFact s + 1"
    and "\<not> (It s = 0 \<or> \<not> cteJac s) \<Longrightarrow> J s' = J s \<and> Jtri s' = Jtri s"
proof -
  from assms obtain s1 s2 s3 where e: "evalJ L s x = Inr s1" and l: "linsolve L s1 = Inr s2"
    and u: "update_x s2 x = (s3, x', Ldx)"
    and s': "s' = s3\<lparr>fx := Ffcn s3 x', NFeval := NFeval s3 + 1\<rparr>"
    by (rule newton_update_cases)
  show "NFeval s < NFeval s'"
    using evalJ_counters(1) [OF e] linsolve_counters(1) [OF l] update_x_counters(1) [OF u]
    by (simp add: s')
  show "NJeval s' = (if It s = 0 \<or> \<not> cteJac s then NJeval s + 1 else NJeval s)"
    using evalJ_counters(2) [OF e] linsolve_counters(2) [OF l] update_x_counters(2) [OF u]
    by (simp add: s')
  show "NFact s' = NFact s + 1"
    using evalJ_counters(3) [OF e] linsolve_counters(3) [OF l] update_x_counters(3) [OF u]
    by (simp add: s')
  show "J s' = J s \<and> Jtri s' = Jtri s" if "\<not> (It s = 0 \<or> \<not> cteJac s)"
    using evalJ_counters(5) [OF e that] linsolve_counters(4,5) [OF l] update_x_counters(4,5) [OF u]
    by (simp add: s')
qed

lemma line_search_step_counters:
  assumes "line_search_step L s x = (s', x', Ldx)"
  shows "NJeval s' = NJeval s" and "NFact s' = NFact s" and "J s' = J s" and "Jtri s' = Jtri s"
    and "LineSearch_counts L \<Longrightarrow> NFeval s \<le> NFeval s'"
proof -
  show "NJeval s' = NJeval s" and "NFact s' = NFact s" and "J s' = J s" and "Jtri s' = Jtri s"
    using assms by (auto simp: line_search_step_def split: prod.splits)
  show "NFeval s \<le> NFeval s'" if "LineSearch_counts L"
  proof -
    from that
    have "0 \<le> snd (snd (LineSearch L (Ffcn s) x (fx s) (mdx s) (x0 s) (dphidx s) (phi s)
                           (linSchMaxIt s)))"
      unfolding LineSearch_counts_def by blast
    with assms show ?thesis
      by (auto simp: line_search_step_def split: prod.splits)
  qed
qed

lemma body_Break_cases:
  assumes "body L s x LdxPrev = Break s' x'"
  obtains (initial) "Largest (fx s) 1 < ftol s" and "s' = s" and "x' = x"
    | (residual) Ldx where "\<not> Largest (fx s) 1 < ftol s"
      and "newton_update L s x = Inr (s', x', Ldx)" and "Largest (fx s') 1 < ftol s'"
    | (increment) Ldx where "\<not> Largest (fx s) 1 < ftol s"
      and "newton_update L s x = Inr (s', x', Ldx)" and "Ldx < fnewt s'"
    | (search) s1 x1 Ldx Ldx2 where "\<not> Largest (fx s) 1 < ftol s"
      and "newton_update L s x = Inr (s1, x1, Ldx)" and "linSearch s1"
      and "line_search_step L s1 x1 = (s', x', Ldx2)" and "Ldx2 < fnewt s'"
  using assms unfolding body_def
  by (auto simp: conv_rate_not_Break split: sum.splits if_splits prod.splits)

lemma body_Break_config:
  assumes "body L s x LdxPrev = Break s' x'"
  shows "same_config s s'"
  using assms
proof (cases rule: body_Break_cases)
  case initial
  then show ?thesis by (simp add: same_config_refl)
next
  case (residual Ldx)
  then show ?thesis by (blast intro: newton_update_config)
next
  case (increment Ldx)
  then show ?thesis by (blast intro: newton_update_config)
next
  case (search s1 x1 Ldx Ldx2)
  then show ?thesis
    by (blast intro: same_config_trans newton_update_config line_search_step_config)
qed

lemma body_Continue_split:
  assumes "body L s x LdxPrev = Continue s' x' l"
  obtains s1 x1 Ldx where "\<not> Largest (fx s) 1 < ftol s"
    and "newton_update L s x = Inr (s1, x1, Ldx)"
    and "(\<not> linSearch s1 \<and> s' = s1 \<and> x' = x1 \<and> l = Ldx) \<or>
         (linSearch s1 \<and> line_search_step L s1 x1 = (s', x', l))"
  using assms unfolding body_def
  by (auto split: sum.splits if_splits prod.splits dest!: conv_rate_Continue)

lemma body_Continue_counters:
  assumes "body L s x LdxPrev = Continue s' x' l"
  shows "NJeval s' = (if It s = 0 \<or> \<not> cteJac s then NJeval s + 1 else NJeval s)"
    and "NFact s' = NFact s + 1"
    and "\<not> (It s = 0 \<or> \<not> cteJac s) \<Longrightarrow> J s' = J s \<and> Jtri s' = Jtri s"
    and "LineSearch_counts L \<Longrightarrow> NFeval s < NFeval s'"
proof -
  from assms obtain s1 x1 Ldx where n: "newton_update L s x = Inr (s1, x1, Ldx)"
    and d: "(\<not> linSearch s1 \<and> s' = s1 \<and> x' = x1 \<and> l = Ldx) \<or>
            (linSearch s1 \<and> line_search_step L s1 x1 = (s', x', l))"
    by (rule body_Continue_split)
  note nu = newton_update_counters [OF n]
  show "NJeval s' = (if It s = 0 \<or> \<not> cteJac s then NJeval s + 1 else NJeval s)"
    using d nu(2) by (auto dest: line_search_step_counters(1))
  show "NFact s' = NFact s + 1"
    using d nu(3) by (auto dest: line_search_step_counters(2))
  show "J s' = J s \<and> Jtri s' = Jtri s" if "\<not> (It s = 0 \<or> \<not> cteJac s)"
    using d nu(4) [OF that] by (auto dest: line_search_step_counters(3,4))
  show "NFeval s < NFeval s'" if "LineSearch_counts L"
    using d nu(1) line_search_step_counters(5) [OF _ that] by fastforce
qed

lemma body_Break_counters:
  assumes "body L s x LdxPrev = Break s' x'"
  shows "(NJeval s' = NJeval s \<or>
          NJeval s' = (if It s = 0 \<or> \<not> cteJac s then NJeval s + 1 else NJeval s)) \<and>
         (NFact s' = NFact s \<or> NFact s' = NFact s + 1) \<and>
         (LineSearch_counts L \<longrightarrow> NFeval s \<le> NFeval s')"
  using assms
proof (cases rule: body_Break_cases)
  case initial
  then show ?thesis by simp
next
  case (residual Ldx)
  from newton_update_counters [OF residual(2)] show ?thesis by simp
next
  case (increment Ldx)
  from newton_update_counters [OF increment(2)] show ?thesis by simp
next
  case (search s1 x1 Ldx Ldx2)
  note nu = newton_update_counters [OF search(2)]
  note ls = line_search_step_counters [OF search(4)]
  from nu(1) ls(5) have "LineSearch_counts L \<longrightarrow> NFeval s \<le> NFeval s'"
    by fastforce
  with nu(2,3) ls(1,2) show ?thesis by simp
qed

subsection \<open>Invariants of the loop\<close>

lemma iterations_invariant:
  assumes "iterations L s x lp = Inr (s', x')" and "P s"
    and "\<And>s x lp t y l. P s \<Longrightarrow> It s < maxIt s \<Longrightarrow> body L s x lp = Continue t y l
                 \<Longrightarrow> P (t\<lparr>It := It t + 1\<rparr>)"
    and "\<And>s x lp t y. P s \<Longrightarrow> It s < maxIt s \<Longrightarrow> body L s x lp = Break t y \<Longrightarrow> Q t"
    and "\<And>s. P s \<Longrightarrow> \<not> It s < maxIt s \<Longrightarrow> Q s"
  shows "Q s'"
  using assms
proof (induction L s x lp rule: iterations.induct)
  case (1 L s x LdxPrev)
  note run = "1.prems"(1) and inv = "1.prems"(2) and step = "1.prems"(3)
    and brk = "1.prems"(4) and fin = "1.prems"(5)
  show ?case
  proof (cases "It s < maxIt s")
    case False
    with run have "s' = s"
      by (simp add: iterations.simps)
    with False inv show ?thesis
      by (simp add: fin)
  next
    case True
    show ?thesis
    proof (cases "body L s x LdxPrev")
      case (Break t y)
      with True run have "t = s'"
        by (simp add: iterations.simps)
      with brk [OF inv True Break] show ?thesis
        by simp
    next
      case (Continue t y l)
      with True run have "iterations L (t\<lparr>It := It t + 1\<rparr>) y l = Inr (s', x')"
        by (simp add: iterations.simps)
      moreover have "P (t\<lparr>It := It t + 1\<rparr>)"
        by (rule step [OF inv True Continue])
      ultimately show ?thesis
        using step brk fin by (rule "1.IH" [OF True Continue])
    next
      case (Panic e)
      with True run show ?thesis
        by (simp add: iterations.simps)
    qed
  qed
qed

lemma passes_invariant:
  assumes "passes L n s x lp = Some (t, y, l)" and "P s"
    and step: "\<And>s x lp t y l. P s \<Longrightarrow> body L s x lp = Continue t y l
                 \<Longrightarrow> P (t\<lparr>It := It t + 1\<rparr>)"
  shows "P t"
  using assms(1,2)
proof (induction n arbitrary: s x lp)
  case 0
  then show ?case by simp
next
  case (Suc n)
  from Suc.prems(1) obtain s1 x1 l1 where b: "body L s x lp = Continue s1 x1 l1"
    and p: "passes L n (s1\<lparr>It := It s1 + 1\<rparr>) x1 l1 = Some (t, y, l)"
    by (auto split: step.splits)
  from Suc.prems(2) b have "P (s1\<lparr>It := It s1 + 1\<rparr>)"
    by (rule step)
  with p show ?case
    by (rule Suc.IH)
qed

subsection \<open>Panics of the loop body\<close>

lemma evalJ_errors: "evalJ L s x = Inl e \<Longrightarrow> e = NilCallback"
  by (auto simp: evalJ_def split: if_splits option.splits sum.splits)

lemma linsolve_errors: "linsolve L s = Inl e \<Longrightarrow> e = LinSolveFailed"
  by (auto simp: linsolve_def Let_def split: if_splits option.splits)

lemma newton_update_errors:
  "newton_update L s x = Inl e \<Longrightarrow> e = NilCallback \<or> e = LinSolveFailed \<or> e = IndexOutOfRange"
  unfolding newton_update_def
  by (auto split: sum.splits if_splits prod.splits dest: evalJ_errors linsolve_errors)

lemma body_Panic_cases:
  assumes "body L s x LdxPrev = Panic e"
  obtains (update) "newton_update L s x = Inl e"
    | (rate) v z k where "same_config s v" and "conv_rate v z k LdxPrev = Panic e"
proof -
  from assms consider "newton_update L s x = Inl e"
    | s1 x1 Ldx where "newton_update L s x = Inr (s1, x1, Ldx)" and "\<not> linSearch s1"
        and "conv_rate s1 x1 Ldx LdxPrev = Panic e"
    | s1 x1 Ldx s2 x2 Ldx2 where "newton_update L s x = Inr (s1, x1, Ldx)"
        and "line_search_step L s1 x1 = (s2, x2, Ldx2)"
        and "conv_rate s2 x2 Ldx2 LdxPrev = Panic e"
    unfolding body_def
    by (auto split: sum.splits if_splits prod.splits)
  then show ?thesis
  proof cases
    case 1
    then show ?thesis by (rule update)
  next
    case 2
    then show ?thesis
      by (blast intro: rate newton_update_config)
  next
    case 3
    then show ?thesis
      by (blast intro: rate same_config_trans newton_update_config line_search_step_config)
  qed
qed

subsection \<open>What the loop keeps\<close>

lemma passes_iterations:
  assumes "passes L n s x lp = Some (t, y, l)" and "It s + int n \<le> maxIt s"
  shows "iterations L s x lp = iterations L t y l \<and> It t = It s + int n \<and> maxIt t = maxIt s"
  using assms
proof (induction n arbitrary: s x lp)
  case 0
  then show ?case by simp
next
  case (Suc n)
  from Suc.prems(1) obtain s1 x1 l1 where b: "body L s x lp = Continue s1 x1 l1"
    and p: "passes L n (s1\<lparr>It := It s1 + 1\<rparr>) x1 l1 = Some (t, y, l)"
    by (auto split: step.splits)
  from body_Continue_config [OF b] have c: "It s1 = It s" "maxIt s1 = maxIt s"
    by (simp_all add: same_config_def)
  from Suc.prems(2) have lt: "It s < maxIt s"
    by simp
  from Suc.prems(2) c have "It (s1\<lparr>It := It s1 + 1\<rparr>) + int n \<le> maxIt (s1\<lparr>It := It s1 + 1\<rparr>)"
    by simp
  from Suc.IH [OF p this] c
  have "iterations L (s1\<lparr>It := It s1 + 1\<rparr>) x1 l1 = iterations L t y l"
    and "It t = It s + int (Suc n)" and "maxIt t = maxIt s"
    by simp_all
  moreover from lt b have "iterations L s x lp = iterations L (s1\<lparr>It := It s1 + 1\<rparr>) x1 l1"
    by (simp add: iterations.simps)
  ultimately show ?case
    by simp
qed

lemma passes_config:
  assumes "passes L n s x lp = Some (t, y, l)"
  shows "scal t = scal s \<and> atol t = atol s \<and> rtol t = rtol s"
  using assms
proof (rule passes_invariant [where P = "\<lambda>u. scal u = scal s \<and> atol u = atol s \<and> rtol u = rtol s"])
  show "scal s = scal s \<and> atol s = atol s \<and> rtol s = rtol s"
    by simp
next
  fix u x lp t y l
  assume "scal u = scal s \<and> atol u = atol s \<and> rtol u = rtol s"
    and "body L u x lp = Continue t y l"
  with body_Continue_config [of L u x lp t y l]
  show "scal (t\<lparr>It := It t + 1\<rparr>) = scal s \<and> atol (t\<lparr>It := It t + 1\<rparr>) = atol s \<and>
        rtol (t\<lparr>It := It t + 1\<rparr>) = rtol s"
    by (simp add: same_config_def)
qed

lemma iterations_scal:
  assumes "iterations L s x lp = Inr (s', x')"
  shows "scal s' = scal s"
  using assms
proof (rule iterations_invariant [where P = "\<lambda>u. scal u = scal s" and Q = "\<lambda>u. scal u = scal s"])
  show "scal s = scal s"
    by simp
next
  fix u x lp t y l
  assume "scal u = scal s" and "body L u x lp = Continue t y l"
  with body_Continue_config [of L u x lp t y l] show "scal (t\<lparr>It := It t + 1\<rparr>) = scal s"
    by (simp add: same_config_def)
next
  fix u x lp t y
  assume "scal u = scal s" and "body L u x lp = Break t y"
  with body_Break_config [of L u x lp t y] show "scal t = scal s"
    by (simp add: same_config_def)
qed

lemma iterations_NFeval:
  assumes "iterations L s x lp = Inr (s', x')" and "LineSearch_counts L" and "1 \<le> NFeval s"
  shows "1 \<le> NFeval s'"
  using assms(1)
proof (rule iterations_invariant [where P = "\<lambda>t. 1 \<le> NFeval t" and Q = "\<lambda>t. 1 \<le> NFeval t"])
  show "1 \<le> NFeval s" by fact
next
  fix s x lp t y l
  assume "1 \<le> NFeval s" and "body L s x lp = Continue t y l"
  with body_Continue_counters(4) [OF _ assms(2)] show "1 \<le> NFeval (t\<lparr>It := It t + 1\<rparr>)"
    by fastforce
next
  fix s x lp t y
  assume "1 \<le> NFeval s" and "body L s x lp = Break t y"
  with body_Break_counters [of L s x lp t y] assms(2) show "1 \<le> NFeval t"
    by fastforce
qed

lemma passes_cteJac:
  assumes "passes L n u x lp = Some (t, y, l)" and "cteJac u" and "0 < It u"
  shows "cteJac t \<and> 0 < It t \<and> J t = J u \<and> Jtri t = Jtri u \<and> NJeval t = NJeval u \<and>
         NFact t = NFact u + n"
  using assms
proof (induction n arbitrary: u x lp)
  case 0
  then show ?case by simp
next
  case (Suc n)
  from Suc.prems(1) obtain s1 x1 l1 where b: "body L u x lp = Continue s1 x1 l1"
    and p: "passes L n (s1\<lparr>It := It s1 + 1\<rparr>) x1 l1 = Some (t, y, l)"
    by (auto split: step.splits)
  from body_Continue_config [OF b] have c: "It s1 = It u" "cteJac s1 = cteJac u"
    by (simp_all add: same_config_def)
  from Suc.prems(2,3) have k: "\<not> (It u = 0 \<or> \<not> cteJac u)"
    by simp
  from body_Continue_counters(1,2) [OF b] body_Continue_counters(3) [OF b k] k
  have d: "NJeval s1 = NJeval u" "NFact s1 = NFact u + 1" "J s1 = J u" "Jtri s1 = Jtri u"
    by simp_all
  from c Suc.prems(2,3) have "cteJac (s1\<lparr>It := It s1 + 1\<rparr>)" "0 < It (s1\<lparr>It := It s1 + 1\<rparr>)"
    by simp_all
  from Suc.IH [OF p this] d show ?case
    by simp
qed

lemma iterations_cteJac:
  assumes "iterations L s x lp = Inr (s', x')" and "cteJac s" and "It s = 0" and "NJeval s = 0"
  shows "NJeval s' \<le> 1 \<and>
         (NFact s' = NFact s + nat (It s') \<or> NFact s' = NFact s + nat (It s') + 1)"
  using assms(1)
proof (rule iterations_invariant
    [where P = "\<lambda>u. cteJac u \<and> 0 \<le> It u \<and> NJeval u = (if It u = 0 then 0 else 1) \<and>
                     NFact u = NFact s + nat (It u)"])
  show "cteJac s \<and> 0 \<le> It s \<and> NJeval s = (if It s = 0 then 0 else 1) \<and>
        NFact s = NFact s + nat (It s)"
    using assms(2-4) by simp
next
  fix u x lp t y l
  assume P: "cteJac u \<and> 0 \<le> It u \<and> NJeval u = (if It u = 0 then 0 else 1) \<and>
             NFact u = NFact s + nat (It u)"
    and b: "body L u x lp = Continue t y l"
  from body_Continue_config [OF b] have c: "It t = It u" "cteJac t = cteJac u"
    by (simp_all add: same_config_def)
  from body_Continue_counters(1,2) [OF b] P c
  show "cteJac (t\<lparr>It := It t + 1\<rparr>) \<and> 0 \<le> It (t\<lparr>It := It t + 1\<rparr>) \<and>
        NJeval (t\<lparr>It := It t + 1\<rparr>) = (if It (t\<lparr>It := It t + 1\<rparr>) = 0 then 0 else 1) \<and>
        NFact (t\<lparr>It := It t + 1\<rparr>) = NFact s + nat (It (t\<lparr>It := It t + 1\<rparr>))"
    by (auto simp: nat_add_distrib)
next
  fix u x lp t y
  assume P: "cteJac u \<and> 0 \<le> It u \<and> NJeval u = (if It u = 0 then 0 else 1) \<and>
             NFact u = NFact s + nat (It u)"
    and b: "body L u x lp = Break t y"
  from body_Break_config [OF b] have c: "It t = It u"
    by (simp add: same_config_def)
  from body_Break_counters [OF b] P c
  show "NJeval t \<le> 1 \<and> (NFact t = NFact s + nat (It t) \<or> NFact t = NFact s + nat (It t) + 1)"
    by (auto split: if_splits)
next
  fix u
  assume "cteJac u \<and> 0 \<le> It u \<and> NJeval u = (if It u = 0 then 0 else 1) \<and>
          NFact u = NFact s + nat (It u)"
  then show "NJeval u \<le> 1 \<and> (NFact u = NFact s + nat (It u) \<or> NFact u = NFact s + nat (It u) + 1)"
    by (auto split: if_splits)
qed

subsection \<open>The norm of the increment\<close>

lemma fold_add_upt: "fold (\<lambda>i a. a + f i) [0..<n] (0::real) = (\<Sum>i<n. f i)"
  by (induction n) simp_all

lemma rms_scaled_eq:
  "rms_scaled n d sc = sqrt ((1 / real n) * (\<Sum>i<n. (d i / sc ! i)\<^sup>2))"
  by (simp add: rms_scaled_def fold_add_upt power2_eq_square)

lemma fold_subtract_upt:
  "n \<le> length x \<Longrightarrow>
     length (fold (\<lambda>i y. y[i := y ! i - m ! i]) [0..<n] x) = length x \<and>
     (\<forall>k. fold (\<lambda>i y. y[i := y ! i - m ! i]) [0..<n] x ! k
            = (if k < n then x ! k - m ! k else x ! k))"
  by (induction n) (auto simp: nth_list_update)

lemma update_x_increment:
  assumes "update_x s x = (s', x', Ldx)" and "neq s \<le> length x"
  shows "Ldx = rms_scaled (neq s) (\<lambda>i. x ! i - x' ! i) (scal s)"
proof -
  from assms(1) have x': "x' = fold (\<lambda>i y. y[i := y ! i - mdx s ! i]) [0..<neq s] x"
    and l: "Ldx = rms_scaled (neq s) (\<lambda>i. mdx s ! i) (scal s)"
    by (simp_all add: update_x_def)
  from fold_subtract_upt [OF assms(2), of "mdx s"] x'
  have "\<forall>i<neq s. x ! i - x' ! i = mdx s ! i"
    by simp
  then show ?thesis
    by (simp add: l rms_scaled_eq)
qed

lemma newton_update_increment:
  assumes "newton_update L s x = Inr (s', x', Ldx)"
  shows "Ldx = rms_scaled (neq s) (\<lambda>i. x ! i - x' ! i) (scal s)"
proof -
  from assms obtain s1 s2 s3 where e: "evalJ L s x = Inr s1" and l: "linsolve L s1 = Inr s2"
    and n: "neq s2 \<le> length x" and u: "update_x s2 x = (s3, x', Ldx)"
    by (rule newton_update_cases)
  from evalJ_config [OF e] linsolve_config [OF l] have "neq s2 = neq s" "scal s2 = scal s"
    by (simp_all add: same_config_def)
  with update_x_increment [OF u n] show ?thesis
    by simp
qed

subsection \<open>Init and the numerical Jacobian\<close>

lemma Init_fnewt:
  assumes "Init L o' n ffcn jsp jdn usedn numj prms = Inr s"
  shows "fnewt s = max (10 * MACHEPS L / rtol s) (min 0.03 (sqrt (rtol s)))"
  using assms
  by (auto simp: Init_def SetTols_def Let_def split: sum.splits prod.splits if_splits)

lemma Init_numJ:
  assumes "Init L o' n ffcn None jdn False numj prms = Inr s"
  shows "numJ s \<and> \<not> useDn s \<and> JfcnSp s = None \<and> neq s = n \<and> Ffcn s = ffcn"
  using assms
  by (auto simp: Init_def SetTols_def Let_def split: sum.splits prod.splits if_splits)

lemma Jacobian_entry:
  assumes "row < length x" and "col < length x"
  shows "(row, col, (ffcn (x[col := x ! col + delta (x ! col)]) ! row - fx0 ! row)
                      / delta (x ! col)) \<in> set (Jacobian delta ffcn x fx0)"
proof -
  have "(row, col, (ffcn (x[col := x ! col + delta (x ! col)]) ! row - fx0 ! row)
                     / delta (x ! col)) \<in> set (Jacobian_col delta ffcn x fx0 col)"
    using assms(1) by (auto simp: Jacobian_col_def Let_def)
  with assms(2) show ?thesis
    by (auto simp: Jacobian_def)
qed

lemma length_Jacobian: "length (Jacobian delta ffcn x fx0) = length x * length x"
proof -
  have "length (Jacobian_col delta ffcn x fx0 col) = length x" for col
    by (simp add: Jacobian_col_def Let_def)
  then show ?thesis
    by (simp add: Jacobian_def length_concat comp_def sum_list_triv)
qed

lemma read_prm_accepted:
  "k \<in> accepted_prms \<Longrightarrow> \<exists>acc'. read_prm (k, v) acc = Inr acc'"
  by (cases acc) (auto simp: read_prm_def accepted_prms_def)

lemma read_prm_rejected:
  "k \<notin> accepted_prms \<Longrightarrow> read_prm (k, v) acc = Inl (InvalidParameter k)"
  by (cases acc) (simp add: read_prm_def accepted_prms_def)

lemma read_prms_rejects:
  assumes "\<exists>k \<in> fst ` set prms. k \<notin> accepted_prms"
  shows "\<exists>k. k \<in> fst ` set prms \<and> k \<notin> accepted_prms \<and>
              read_prms prms acc = Inl (InvalidParameter k)"
  using assms
proof (induction prms arbitrary: acc)
  case Nil
  then show ?case by simp
next
  case (Cons kv kvs)
  obtain k v where kv: "kv = (k, v)"
    by (cases kv)
  show ?case
  proof (cases "k \<in> accepted_prms")
    case False
    then show ?thesis
      by (auto simp: kv read_prm_rejected)
  next
    case True
    then obtain acc' where a: "read_prm (k, v) acc = Inr acc'"
      using read_prm_accepted by blast
    from True Cons.prems have "\<exists>k \<in> fst ` set kvs. k \<notin> accepted_prms"
      by (auto simp: kv)
    from Cons.IH [OF this, of acc'] a show ?thesis
      by (auto simp: kv)
  qed
qed

lemma read_prms_accepts:
  assumes "\<forall>k \<in> fst ` set prms. k \<in> accepted_prms"
  shows "\<exists>acc'. read_prms prms acc = Inr acc'"
  using assms
proof (induction prms arbitrary: acc)
  case Nil
  show ?case by (metis read_prms.simps(1))
next
  case (Cons kv kvs)
  obtain k v where kv: "kv = (k, v)"
    by (cases kv)
  from Cons.prems have "k \<in> accepted_prms"
    by (simp add: kv)
  then obtain acc' where a: "read_prm (k, v) acc = Inr acc'"
    using read_prm_accepted by blast
  from Cons.prems have "\<forall>k \<in> fst ` set kvs. k \<in> accepted_prms"
    by simp
  from Cons.IH [OF this, of acc'] a show ?case
    by (simp add: kv)
qed

lemma Solve_enter_counters_irrelevant:
  "Solve_enter (s\<lparr>NFeval := a, NJeval := b\<rparr>) x = Solve_enter s x"
  by (simp add: Solve_enter_def Let_def)

subsection \<open>Evaluating the concrete solvers\<close>

lemma upt1: "[0..<1] = [0]"
  by (simp add: upt_rec)

lemmas run_defs = Solve_def Solve_enter_def iterations.simps body_def newton_update_def
  evalJ_def linsolve_def update_x_def rms_scaled_def conv_rate_def line_search_step_def
  Largest_def VecScaleAbs_def mk_solver_def Init_def read_prm_def SetTols_def NewVector_def
  NewMatrix_def NlSolver_zero_def caps1_def f_const_def f_step_def f_lin_def J_one_Sp_def
  J_one_Dn_def stats_def loop_obs_def go_int_def Let_def upt1

lemma LineSearch_counts_caps1: "LineSearch_counts caps1"
  by (simp add: LineSearch_counts_def caps1_def)

lemma sqrt_small: "sqrt (1 / 10000) = 1 / 100"
  by (rule real_sqrt_unique) (simp_all add: power2_eq_square)

section \<open>The claims\<close>

subsection \<open>Convergence on the increment\<close>

text \<open>
  Claim C2. The Newton tolerance is \<open>fnewt = max (10 eps / rtol) (min 0.03 (sqrt rtol))\<close>,
  computed by \<open>SetTols\<close> (and by \<open>Init\<close> with the machine epsilon); the \<open>Ldx\<close> of a Newton
  update is the scaled root-mean-square norm \<open>sqrt ((1/n) sum_i (dx_i / scal_i)^2)\<close> of the
  increment \<open>dx\<close> of \<open>x\<close>; and when \<open>Ldx\<close> is below \<open>fnewt\<close> the loop stops in that pass and
  \<open>Solve\<close> has converged with the updated \<open>x\<close>.
\<close>

theorem Newton_converges_on_increment:
  "fnewt (SetTols o' Atol Rtol Ftol eps) = max (10 * eps / Rtol) (min 0.03 (sqrt Rtol)) \<and>
   (Init L o' n ffcn jsp jdn usedn numj prms = Inr s0 \<longrightarrow>
      fnewt s0 = max (10 * MACHEPS L / rtol s0) (min 0.03 (sqrt (rtol s0)))) \<and>
   (newton_update L s x = Inr (t, y, Ldx) \<longrightarrow>
      Ldx = sqrt ((1 / real (neq s)) * (\<Sum>i<neq s. ((x ! i - y ! i) / scal s ! i)\<^sup>2))) \<and>
   (It s < maxIt s \<and> \<not> Largest (fx s) 1 < ftol s \<and>
      newton_update L s x = Inr (t, y, Ldx) \<and> Ldx < fnewt s
      \<longrightarrow> iterations L s x LdxPrev = Inr (t, y))"
proof -
  have a: "fnewt (SetTols o' Atol Rtol Ftol eps) = max (10 * eps / Rtol) (min 0.03 (sqrt Rtol))"
    by (simp add: SetTols_def)
  have b: "Ldx = sqrt ((1 / real (neq s)) * (\<Sum>i<neq s. ((x ! i - y ! i) / scal s ! i)\<^sup>2))"
    if "newton_update L s x = Inr (t, y, Ldx)"
    using newton_update_increment [OF that] by (simp only: rms_scaled_eq)
  have c: "iterations L s x LdxPrev = Inr (t, y)"
    if "It s < maxIt s" and "\<not> Largest (fx s) 1 < ftol s"
      and n: "newton_update L s x = Inr (t, y, Ldx)" and "Ldx < fnewt s"
  proof -
    from newton_update_config [OF n] have "fnewt t = fnewt s"
      by (simp add: same_config_def)
    with that show ?thesis
      by (simp add: iterations.simps body_def)
  qed
  from a b c Init_fnewt show ?thesis
    by blast
qed

text \<open>
  The constant residual 1 from \<open>x = 99\<close>: the scaling is 100, the step is 1, so
  \<open>Ldx = 1/100\<close> is below \<open>fnewt = 3/100\<close> and the call returns after one update.
\<close>

theorem Newton_converges_on_increment_witness:
  "Init caps1 NlSolver_zero 1 f_const (Some J_one_Sp) (Some J_one_Dn) True False
     [(''atol'', 1), (''rtol'', 1)] = Inr (mk_solver f_const True []) \<and>
   fnewt (mk_solver f_const True []) = 3 / 100 \<and>
   It (Solve_enter (mk_solver f_const True []) [99]) < maxIt (Solve_enter (mk_solver f_const True []) [99]) \<and>
   \<not> Largest (fx (Solve_enter (mk_solver f_const True []) [99])) 1
       < ftol (Solve_enter (mk_solver f_const True []) [99]) \<and>
   (1 / 100 :: real) < fnewt (Solve_enter (mk_solver f_const True []) [99]) \<and>
   (1 / 100 :: real) = sqrt ((1 / real 1) * (\<Sum>i<1. (([99] ! i - [98] ! i) / [100] ! i)\<^sup>2)) \<and>
   stats (Solve caps1 (mk_solver f_const True []) [99] True) = Inr (0, 2, 1, 1, [98])"
proof -
  let ?s = "mk_solver f_const True []"
  let ?e = "Solve_enter ?s [99]"
  have i: "Init caps1 NlSolver_zero 1 f_const (Some J_one_Sp) (Some J_one_Dn) True False
             [(''atol'', 1), (''rtol'', 1)] = Inr ?s"
    by (simp add: mk_solver_def Init_def read_prm_def Let_def)
  have m: "MACHEPS caps1 = 1 / 10 ^ 16" "rtol ?s = 1"
    by (simp_all add: run_defs)
  from Newton_converges_on_increment [where L = caps1 and o' = NlSolver_zero and n = 1
      and ffcn = f_const and jsp = "Some J_one_Sp" and jdn = "Some J_one_Dn" and usedn = True
      and numj = False and prms = "[(''atol'', 1), (''rtol'', 1)]" and ?s0.0 = ?s] i m
  have h0: "fnewt ?s = 3 / 100"
    by simp
  have h1: "It ?e < maxIt ?e" and h2: "\<not> Largest (fx ?e) 1 < ftol ?e"
    and h3: "(1 / 100 :: real) < fnewt ?e" and h3': "neq ?e = 1" "scal ?e = [100]"
    by (simp_all add: run_defs)
  obtain t where h4: "newton_update caps1 ?e [99] = Inr (t, [98], 1 / 100)"
    and h5: "stats (Inr (t, [98])) = Inr (0, 2, 1, 1, [98])" and h6: "maxIt t = 20"
    by (simp add: run_defs sqrt_small)
  from Newton_converges_on_increment [where L = caps1 and s = ?e and x = "[99]" and t = t
      and y = "[98]" and Ldx = "1 / 100" and LdxPrev = 0] h1 h2 h3 h4 h3'
  have r: "iterations caps1 ?e [99] 0 = Inr (t, [98])"
    and f: "(1 / 100 :: real) = sqrt ((1 / real 1) * (\<Sum>i<1. (([99] ! i - [98] ! i) / [100] ! i)\<^sup>2))"
    by simp_all
  from r h5 h6 have "stats (Solve caps1 ?s [99] True) = Inr (0, 2, 1, 1, [98])"
    by (simp add: Solve_def stats_def)
  with i h0 h1 h2 h3 f show ?thesis
    by blast
qed

subsection \<open>The constant-Jacobian mode\<close>

text \<open>
  Claim C3 (amended). With \<open>cteJac\<close> set, a call of \<open>Solve\<close> evaluates the Jacobian at most
  once, in the first pass, and every later pass uses that same Jacobian; but the Jacobian is
  factorised (sparse) or inverted (dense) again in every pass that solves the linear
  system, as without \<open>cteJac\<close>: after \<open>n + 1\<close> full passes there have been \<open>n + 1\<close>
  factorisations and one Jacobian evaluation.
\<close>

theorem Solve_cteJac_refactorises:
  "(cteJac s \<and> Solve L s x silent = Inr (s', x') \<longrightarrow>
      NJeval s' \<le> 1 \<and>
      (NFact s' = NFact s + nat (It s') \<or> NFact s' = NFact s + nat (It s') + 1)) \<and>
   (cteJac s \<and> passes L 1 (Solve_enter s x) x 0 = Some (ta, ya, la) \<and>
      passes L (Suc n) (Solve_enter s x) x 0 = Some (t, y, l) \<longrightarrow>
      NJeval t = 1 \<and> J t = J ta \<and> Jtri t = Jtri ta \<and> NFact t = NFact s + Suc n)"
proof -
  let ?e = "Solve_enter s x"
  have e: "cteJac ?e = cteJac s" "It ?e = 0" "NJeval ?e = 0" "NFact ?e = NFact s"
    by (simp_all add: Solve_enter_def Let_def)
  have a: "NJeval s' \<le> 1 \<and>
           (NFact s' = NFact s + nat (It s') \<or> NFact s' = NFact s + nat (It s') + 1)"
    if c: "cteJac s" and r: "Solve L s x silent = Inr (s', x')"
  proof -
    from r have "iterations L ?e x 0 = Inr (s', x')"
      by (auto simp: Solve_def split: sum.splits if_splits)
    from iterations_cteJac [OF this] c e show ?thesis
      by simp
  qed
  have b: "NJeval t = 1 \<and> J t = J ta \<and> Jtri t = Jtri ta \<and> NFact t = NFact s + Suc n"
    if c: "cteJac s" and p1: "passes L 1 ?e x 0 = Some (ta, ya, la)"
      and pn: "passes L (Suc n) ?e x 0 = Some (t, y, l)"
  proof -
    from p1 obtain s1 where b: "body L ?e x 0 = Continue s1 ya la"
      and ta: "ta = s1\<lparr>It := It s1 + 1\<rparr>"
      by (auto split: step.splits)
    from pn b ta have p: "passes L n ta ya la = Some (t, y, l)"
      by simp
    from body_Continue_config [OF b] e c have c1: "It s1 = 0" "cteJac s1"
      by (simp_all add: same_config_def)
    from body_Continue_counters(1,2) [OF b] e have d: "NJeval s1 = 1" "NFact s1 = NFact s + 1"
      by simp_all
    from c1 have "cteJac ta" "0 < It ta"
      by (simp_all add: ta)
    from passes_cteJac [OF p this] d show ?thesis
      by (simp add: ta)
  qed
  from a b show ?thesis
    by blast
qed

text \<open>
  A sparse run with \<open>cteJac\<close> that makes three Newton updates.
\<close>

theorem Solve_cteJac_refactorises_witness:
  "cteJac (mk_solver f_step False [(''cteJac'', 1)]) \<and>
   loop_obs (passes caps1 1 (Solve_enter (mk_solver f_step False [(''cteJac'', 1)]) [0]) [0] 0)
     = Some (1, [- 1], 1) \<and>
   loop_obs (passes caps1 2 (Solve_enter (mk_solver f_step False [(''cteJac'', 1)]) [0]) [0] 0)
     = Some (2, [- 2], 1) \<and>
   stats (Solve caps1 (mk_solver f_step False [(''cteJac'', 1)]) [0] True)
     = Inr (2, 4, 1, 3, [- 3])"
proof -
  let ?s = "mk_solver f_step False [(''cteJac'', 1)]"
  have h0: "cteJac ?s"
    by (simp add: run_defs)
  have h1: "loop_obs (passes caps1 1 (Solve_enter ?s [0]) [0] 0) = Some (1, [- 1], 1)"
    by (simp add: run_defs)
  then obtain ta ya la where h2: "passes caps1 1 (Solve_enter ?s [0]) [0] 0 = Some (ta, ya, la)"
    by (auto simp: loop_obs_def split: option.splits)
  have h3: "loop_obs (passes caps1 2 (Solve_enter ?s [0]) [0] 0) = Some (2, [- 2], 1)"
    by (simp add: run_defs numeral_2_eq_2)
  then obtain t y l where h4: "passes caps1 (Suc 1) (Solve_enter ?s [0]) [0] 0 = Some (t, y, l)"
    by (auto simp: loop_obs_def numeral_2_eq_2 split: option.splits)
  have h5: "stats (Solve caps1 ?s [0] True) = Inr (2, 4, 1, 3, [- 3])"
    by (simp add: run_defs)
  then obtain s' x' where h6: "Solve caps1 ?s [0] True = Inr (s', x')"
    by (auto simp: stats_def split: sum.splits)
  from Solve_cteJac_refactorises [where L = caps1 and s = ?s and x = "[0]" and silent = True
      and s' = s' and x' = x' and ta = ta and ya = ya and la = la and n = 1 and t = t and y = y
      and l = l] h0 h2 h4 h6
  have "NJeval s' \<le> 1" and "NJeval t = 1" and "NFact t = NFact ?s + Suc 1"
    by simp_all
  with h0 h1 h3 h5 show ?thesis
    by simp
qed

text \<open>
  Claim C3 as stated fails: in this run with \<open>cteJac\<close> set, a fresh solver ends with one
  Jacobian evaluation and three factorisations, not one factorisation reused.
\<close>

theorem Solve_cteJac_counterexample:
  "cteJac (mk_solver f_step False [(''cteJac'', 1)]) \<and>
   NFact (mk_solver f_step False [(''cteJac'', 1)]) = 0 \<and>
   stats (Solve caps1 (mk_solver f_step False [(''cteJac'', 1)]) [0] True)
     = Inr (2, 4, 1, 3, [- 3])"
  by (simp add: run_defs)

subsection \<open>The divergence check\<close>

text \<open>
  Claim C4 (amended). With \<open>chkConv\<close> set, in every pass after the first (\<open>It > 0\<close>) that
  meets no convergence test, a ratio \<open>Theta = Ldx / LdxPrev\<close> above 0.99 makes \<open>Solve\<close>
  panic at once with the divergence error that carries \<open>Theta\<close>, \<open>Ldx\<close> and \<open>LdxPrev\<close>
  (with the line search on, \<open>Ldx\<close> is the one computed after the line search). With
  \<open>chkConv\<close> off, as by default, or in the first pass, the ratio is not checked and no
  divergence error is raised.
\<close>

theorem Solve_divergence_check:
  "(It s < maxIt s \<and> 0 < It s \<and> chkConv s \<and> \<not> linSearch s \<and>
      \<not> Largest (fx s) 1 < ftol s \<and> newton_update L s x = Inr (t, y, Ldx) \<and>
      \<not> Largest (fx t) 1 < ftol t \<and> \<not> Ldx < fnewt t \<and> Ldx / LdxPrev > 0.99
      \<longrightarrow> iterations L s x LdxPrev = Inl (Diverging (Ldx / LdxPrev) Ldx LdxPrev)) \<and>
   (It s < maxIt s \<and> 0 < It s \<and> chkConv s \<and> linSearch s \<and>
      \<not> Largest (fx s) 1 < ftol s \<and> newton_update L s x = Inr (t, y, Ldx) \<and>
      \<not> Largest (fx t) 1 < ftol t \<and> \<not> Ldx < fnewt t \<and>
      line_search_step L t y = (u, z, Ldx2) \<and> \<not> Ldx2 < fnewt u \<and> Ldx2 / LdxPrev > 0.99
      \<longrightarrow> iterations L s x LdxPrev = Inl (Diverging (Ldx2 / LdxPrev) Ldx2 LdxPrev)) \<and>
   (\<not> chkConv s \<or> It s = 0 \<longrightarrow> body L s x LdxPrev \<noteq> Panic (Diverging a b c))"
proof -
  have p1: "iterations L s x LdxPrev = Inl (Diverging (Ldx / LdxPrev) Ldx LdxPrev)"
    if "It s < maxIt s" and "0 < It s" and "chkConv s" and "\<not> linSearch s"
      and "\<not> Largest (fx s) 1 < ftol s" and n: "newton_update L s x = Inr (t, y, Ldx)"
      and "\<not> Largest (fx t) 1 < ftol t" and "\<not> Ldx < fnewt t" and "Ldx / LdxPrev > 0.99"
  proof -
    from newton_update_config [OF n] have "It t = It s" "chkConv t = chkConv s"
      "linSearch t = linSearch s"
      by (simp_all add: same_config_def)
    with that show ?thesis
      by (simp add: iterations.simps body_def conv_rate_def)
  qed
  have p2: "iterations L s x LdxPrev = Inl (Diverging (Ldx2 / LdxPrev) Ldx2 LdxPrev)"
    if "It s < maxIt s" and "0 < It s" and "chkConv s" and "linSearch s"
      and "\<not> Largest (fx s) 1 < ftol s" and n: "newton_update L s x = Inr (t, y, Ldx)"
      and "\<not> Largest (fx t) 1 < ftol t" and "\<not> Ldx < fnewt t"
      and ls: "line_search_step L t y = (u, z, Ldx2)" and "\<not> Ldx2 < fnewt u"
      and "Ldx2 / LdxPrev > 0.99"
  proof -
    from newton_update_config [OF n] have "It t = It s" "chkConv t = chkConv s"
      "linSearch t = linSearch s"
      by (simp_all add: same_config_def)
    moreover from line_search_step_config [OF ls] have "It u = It t" "chkConv u = chkConv t"
      by (simp_all add: same_config_def)
    ultimately show ?thesis
      using that by (simp add: iterations.simps body_def conv_rate_def)
  qed
  have p3: "body L s x LdxPrev \<noteq> Panic (Diverging a b c)" if off: "\<not> chkConv s \<or> It s = 0"
  proof
    assume "body L s x LdxPrev = Panic (Diverging a b c)"
    then show False
    proof (cases rule: body_Panic_cases)
      case update
      then show ?thesis
        by (auto dest: newton_update_errors)
    next
      case (rate v z k)
      with off show ?thesis
        by (auto simp: conv_rate_def Let_def same_config_def split: if_splits)
    qed
  qed
  from p1 p2 p3 show ?thesis
    by blast
qed

text \<open>
  The residual that is 1 down to \<open>x = -3\<close>: every update has \<open>Ldx = 1\<close>, so the ratio in
  the second pass is 1. With \<open>chkConv\<close> the call panics there; without it the first pass
  cannot raise the divergence error.
\<close>

theorem Solve_divergence_check_witness:
  "chkConv (mk_solver f_step True [(''chkConv'', 1)]) \<and>
   loop_obs (passes caps1 1 (Solve_enter (mk_solver f_step True [(''chkConv'', 1)]) [0]) [0] 0)
     = Some (1, [- 1], 1) \<and>
   (case passes caps1 1 (Solve_enter (mk_solver f_step True [(''chkConv'', 1)]) [0]) [0] 0 of
      Some (s, x, l) \<Rightarrow> iterations caps1 s x l = Inl (Diverging 1 1 1)
    | None \<Rightarrow> False) \<and>
   Solve caps1 (mk_solver f_step True [(''chkConv'', 1)]) [0] True = Inl (Diverging 1 1 1) \<and>
   linSearch (mk_solver f_step True [(''chkConv'', 1), (''linSearch'', 1)]) \<and>
   (case passes caps1 1
           (Solve_enter (mk_solver f_step True [(''chkConv'', 1), (''linSearch'', 1)]) [0]) [0] 0 of
      Some (s, x, l) \<Rightarrow> iterations caps1 s x l = Inl (Diverging 1 1 1)
    | None \<Rightarrow> False) \<and>
   \<not> chkConv (mk_solver f_step True []) \<and>
   body caps1 (Solve_enter (mk_solver f_step True []) [0]) [0] 0 \<noteq> Panic (Diverging 1 1 1)"
proof -
  let ?c = "mk_solver f_step True [(''chkConv'', 1)]"
  let ?l = "mk_solver f_step True [(''chkConv'', 1), (''linSearch'', 1)]"
  let ?d = "mk_solver f_step True []"
  have h0: "chkConv ?c" and h0': "\<not> chkConv ?d" and h0'': "linSearch ?l"
    by (simp_all add: run_defs)
  have h1: "loop_obs (passes caps1 1 (Solve_enter ?c [0]) [0] 0) = Some (1, [- 1], 1)"
    by (simp add: run_defs)
  obtain s where h2: "passes caps1 1 (Solve_enter ?c [0]) [0] 0 = Some (s, [- 1], 1)"
    and h3: "It s < maxIt s" "0 < It s" "chkConv s" "\<not> linSearch s"
      "\<not> Largest (fx s) 1 < ftol s"
    and h4: "\<exists>t. newton_update caps1 s [- 1] = Inr (t, [- 2], 1) \<and>
                 \<not> Largest (fx t) 1 < ftol t \<and> \<not> 1 < fnewt t"
    by (simp add: run_defs)
  from h4 obtain t where h5: "newton_update caps1 s [- 1] = Inr (t, [- 2], 1)"
    and h6: "\<not> Largest (fx t) 1 < ftol t" "\<not> 1 < fnewt t"
    by blast
  from Solve_divergence_check [where L = caps1 and s = s and x = "[- 1]" and t = t
      and y = "[- 2]" and Ldx = 1 and LdxPrev = 1] h3 h5 h6
  have r1: "iterations caps1 s [- 1] 1 = Inl (Diverging 1 1 1)"
    by simp
  have r2: "Solve caps1 ?c [0] True = Inl (Diverging 1 1 1)"
    by (simp add: run_defs)
  obtain s' where k2: "passes caps1 1 (Solve_enter ?l [0]) [0] 0 = Some (s', [- 1], 1)"
    and k3: "It s' < maxIt s'" "0 < It s'" "chkConv s'" "linSearch s'"
      "\<not> Largest (fx s') 1 < ftol s'"
    and k4: "\<exists>t u. newton_update caps1 s' [- 1] = Inr (t, [- 2], 1) \<and>
                 \<not> Largest (fx t) 1 < ftol t \<and> \<not> 1 < fnewt t \<and>
                 line_search_step caps1 t [- 2] = (u, [- 2], 1) \<and> \<not> 1 < fnewt u"
    by (simp add: run_defs)
  from k4 obtain t' u' where k5: "newton_update caps1 s' [- 1] = Inr (t', [- 2], 1)"
    and k6: "\<not> Largest (fx t') 1 < ftol t'" "\<not> 1 < fnewt t'"
    and k7: "line_search_step caps1 t' [- 2] = (u', [- 2], 1)" "\<not> 1 < fnewt u'"
    by blast
  from Solve_divergence_check [where L = caps1 and s = s' and x = "[- 1]" and t = t'
      and y = "[- 2]" and Ldx = 1 and LdxPrev = 1 and u = u' and z = "[- 2]" and ?Ldx2.0 = 1]
    k3 k5 k6 k7
  have r4: "iterations caps1 s' [- 1] 1 = Inl (Diverging 1 1 1)"
    by simp
  from Solve_divergence_check [where L = caps1 and s = "Solve_enter ?d [0]" and x = "[0]"
      and LdxPrev = 0 and a = 1 and b = 1 and c = 1] h0'
  have r3: "body caps1 (Solve_enter ?d [0]) [0] 0 \<noteq> Panic (Diverging 1 1 1)"
    by (simp add: Solve_enter_def Let_def)
  from h0 h0' h0'' h1 h2 r1 r2 r3 k2 r4 show ?thesis
    by simp
qed

text \<open>
  Claim C4 as stated fails: with the default \<open>chkConv = false\<close> the same iteration has the
  ratio \<open>1 / 1 > 0.99\<close> in its second pass, goes on, and \<open>Solve\<close> returns normally.
\<close>

theorem Solve_unchecked_ratio_counterexample:
  "\<not> chkConv (mk_solver f_step True []) \<and>
   loop_obs (passes caps1 1 (Solve_enter (mk_solver f_step True []) [0]) [0] 0)
     = Some (1, [- 1], 1) \<and>
   loop_obs (passes caps1 2 (Solve_enter (mk_solver f_step True []) [0]) [0] 0)
     = Some (2, [- 2], 1) \<and>
   (99 / 100 :: real) < 1 / 1 \<and>
   stats (Solve caps1 (mk_solver f_step True []) [0] True) = Inr (2, 4, 3, 3, [- 3])"
  by (simp add: run_defs numeral_2_eq_2)

subsection \<open>Unknown parameters\<close>

text \<open>
  Claim C5. If the parameter map given to \<open>Init\<close> has a key outside the accepted names
  \<open>cteJac\<close>, \<open>linSearch\<close>, \<open>linSchMaxIt\<close>, \<open>maxIt\<close>, \<open>chkConv\<close>, \<open>atol\<close>, \<open>rtol\<close>, \<open>ftol\<close>,
  \<open>Init\<close> panics with "parameter named k is invalid" for such a key \<open>k\<close>, in whatever order
  the map is ranged over; it returns a solver exactly when every key is accepted.
\<close>

theorem Init_rejects_unknown_prm:
  "((\<exists>k \<in> fst ` set prms. k \<notin> accepted_prms) \<longrightarrow>
      (\<exists>k. k \<in> fst ` set prms \<and> k \<notin> accepted_prms \<and>
           Init L o' n ffcn jsp jdn usedn numj prms = Inl (InvalidParameter k))) \<and>
   ((\<forall>k \<in> fst ` set prms. k \<in> accepted_prms) \<longrightarrow>
      (\<exists>s. Init L o' n ffcn jsp jdn usedn numj prms = Inr s))"
proof (intro conjI impI)
  let ?o = "o'\<lparr>cteJac := False, linSearch := False, linSchMaxIt := 20, maxIt := 20,
                chkConv := False\<rparr>"
  assume "\<exists>k \<in> fst ` set prms. k \<notin> accepted_prms"
  from read_prms_rejects [OF this, of "(?o, 1 / 10 ^ 8, 1 / 10 ^ 8, 1 / 10 ^ 9)"]
  show "\<exists>k. k \<in> fst ` set prms \<and> k \<notin> accepted_prms \<and>
            Init L o' n ffcn jsp jdn usedn numj prms = Inl (InvalidParameter k)"
    by (auto simp: Init_def Let_def)
next
  let ?o = "o'\<lparr>cteJac := False, linSearch := False, linSchMaxIt := 20, maxIt := 20,
                chkConv := False\<rparr>"
  assume "\<forall>k \<in> fst ` set prms. k \<in> accepted_prms"
  from read_prms_accepts [OF this, of "(?o, 1 / 10 ^ 8, 1 / 10 ^ 8, 1 / 10 ^ 9)"]
  show "\<exists>s. Init L o' n ffcn jsp jdn usedn numj prms = Inr s"
    by (auto simp: Init_def Let_def split: prod.splits)
qed

text \<open>A map with the unknown key \<open>tol\<close>, and a map of accepted keys.\<close>

theorem Init_rejects_unknown_prm_witness:
  "''tol'' \<in> fst ` set [(''maxIt'', 10), (''tol'', 1 / 2)] \<and> ''tol'' \<notin> accepted_prms \<and>
   Init caps1 NlSolver_zero 1 f_lin (Some J_one_Sp) None False False
     [(''maxIt'', 10), (''tol'', 1 / 2)] = Inl (InvalidParameter ''tol'') \<and>
   maxIt (mk_solver f_lin True [(''maxIt'', 10)]) = 10"
proof -
  have h: "\<exists>k \<in> fst ` set [(''maxIt'', 10 :: real), (''tol'', 1 / 2)]. k \<notin> accepted_prms"
    by (simp add: accepted_prms_def)
  have g: "\<forall>k \<in> fst ` set [(''atol'', 1 :: real), (''rtol'', 1), (''maxIt'', 10)]. k \<in> accepted_prms"
    by (simp add: accepted_prms_def)
  from Init_rejects_unknown_prm [where prms = "[(''maxIt'', 10), (''tol'', 1 / 2)]"
      and L = caps1 and o' = NlSolver_zero and n = 1 and ffcn = f_lin and jsp = "Some J_one_Sp"
      and jdn = None and usedn = False and numj = False] h
  have "Init caps1 NlSolver_zero 1 f_lin (Some J_one_Sp) None False False
          [(''maxIt'', 10), (''tol'', 1 / 2)] = Inl (InvalidParameter ''tol'')"
    by (auto simp: accepted_prms_def)
  moreover
  from Init_rejects_unknown_prm [where prms = "[(''atol'', 1), (''rtol'', 1), (''maxIt'', 10)]"
      and L = caps1 and o' = NlSolver_zero and n = 1 and ffcn = f_lin and jsp = "Some J_one_Sp"
      and jdn = "Some J_one_Dn" and usedn = True and numj = False] g
  obtain s where "Init caps1 NlSolver_zero 1 f_lin (Some J_one_Sp) (Some J_one_Dn) True False
          [(''atol'', 1), (''rtol'', 1), (''maxIt'', 10)] = Inr s"
    by blast
  moreover have "maxIt (mk_solver f_lin True [(''maxIt'', 10)]) = 10"
    by (simp add: run_defs)
  ultimately show ?thesis
    by (simp add: accepted_prms_def)
qed

subsection \<open>Exhausting the iterations\<close>

text \<open>
  Claim C6. When the loop makes all its \<open>maxIt\<close> passes and none of them meets a
  convergence test (each pass runs to the end of the body), \<open>Solve\<close> does not return
  normally: it panics with "cannot converge after maxIt iterations".
\<close>

theorem Solve_exhausted_panics:
  assumes "int n = maxIt s" and "passes L n (Solve_enter s x) x 0 = Some r"
  shows "Solve L s x silent = Inl (CannotConverge (maxIt s))"
proof -
  obtain t y l where r: "r = (t, y, l)"
    by (cases r)
  have e: "It (Solve_enter s x) = 0" "maxIt (Solve_enter s x) = maxIt s"
    by (simp_all add: Solve_enter_def Let_def)
  with assms(1) have "It (Solve_enter s x) + int n \<le> maxIt (Solve_enter s x)"
    by simp
  from passes_iterations [OF assms(2) [unfolded r] this] e assms(1)
  have i: "iterations L (Solve_enter s x) x 0 = iterations L t y l"
    and t: "It t = maxIt s" "maxIt t = maxIt s"
    by simp_all
  from t have "iterations L t y l = Inr (t, y)"
    by (simp add: iterations.simps)
  with i t show ?thesis
    by (simp add: Solve_def)
qed

text \<open>The constant residual 1 with \<open>maxIt = 2\<close>.\<close>

theorem Solve_exhausted_panics_witness:
  "int 2 = maxIt (mk_solver f_const True [(''maxIt'', 2)]) \<and>
   loop_obs (passes caps1 2 (Solve_enter (mk_solver f_const True [(''maxIt'', 2)]) [0]) [0] 0)
     = Some (2, [- 2], 1) \<and>
   Solve caps1 (mk_solver f_const True [(''maxIt'', 2)]) [0] True = Inl (CannotConverge 2)"
proof -
  let ?s = "mk_solver f_const True [(''maxIt'', 2)]"
  have h1: "int 2 = maxIt ?s"
    by (simp add: run_defs)
  have h2: "loop_obs (passes caps1 2 (Solve_enter ?s [0]) [0] 0) = Some (2, [- 2], 1)"
    by (simp add: run_defs numeral_2_eq_2)
  then obtain r where h3: "passes caps1 2 (Solve_enter ?s [0]) [0] 0 = Some r"
    by (auto simp: loop_obs_def split: option.splits)
  from Solve_exhausted_panics [OF h1 h3, of True] h1 h2 show ?thesis
    by simp
qed

subsection \<open>The numerical Jacobian\<close>

text \<open>
  Claim C7. In sparse mode with \<open>JfcnSp = nil\<close>, \<open>Init\<close> switches the numerical Jacobian
  on. An evaluation of the Jacobian then builds it by one-sided finite differences from the
  residual \<open>fx\<close> stored in the solver, which is the function at the current \<open>x\<close> (on entry
  and after every Newton update), adds \<open>neq\<close> to \<open>NFeval\<close> and one to \<open>NJeval\<close>. The entry
  for (row, col) is \<open>(f(x + delta e_col)_row - fx_row) / delta\<close>, one perturbed point per
  column.
\<close>

theorem Solve_numerical_Jacobian:
  "(Init L o' n ffcn None jdn False numj prms = Inr s0 \<longrightarrow>
      numJ s0 \<and> \<not> useDn s0 \<and> JfcnSp s0 = None \<and> neq s0 = n) \<and>
   (\<not> useDn s \<and> numJ s \<and> (It s = 0 \<or> \<not> cteJac s) \<longrightarrow>
      evalJ L s x = Inr (s\<lparr>Jtri := Jacobian (fd_delta L) (Ffcn s) x (fx s),
                            NFeval := NFeval s + int (neq s), NJeval := NJeval s + 1\<rparr>)) \<and>
   fx (Solve_enter s x) = Ffcn s x \<and>
   (newton_update L s x = Inr (t, y, Ldx) \<longrightarrow> fx t = Ffcn s y) \<and>
   (row < length x \<and> col < length x \<longrightarrow>
      (row, col, (ffcn (x[col := x ! col + delta (x ! col)]) ! row - fx0 ! row)
                   / delta (x ! col)) \<in> set (Jacobian delta ffcn x fx0)) \<and>
   length (Jacobian delta ffcn x fx0) = length x * length x"
proof -
  have a: "evalJ L s x = Inr (s\<lparr>Jtri := Jacobian (fd_delta L) (Ffcn s) x (fx s),
                                NFeval := NFeval s + int (neq s), NJeval := NJeval s + 1\<rparr>)"
    if "\<not> useDn s" and "numJ s" and "It s = 0 \<or> \<not> cteJac s"
    using that by (auto simp: evalJ_def)
  have b: "fx (Solve_enter s x) = Ffcn s x"
    by (simp add: Solve_enter_def Let_def)
  have c: "fx t = Ffcn s y" if n: "newton_update L s x = Inr (t, y, Ldx)"
  proof -
    from n obtain s1 s2 s3 where e: "evalJ L s x = Inr s1" and l: "linsolve L s1 = Inr s2"
      and u: "update_x s2 x = (s3, y, Ldx)"
      and t: "t = s3\<lparr>fx := Ffcn s3 y, NFeval := NFeval s3 + 1\<rparr>"
      by (rule newton_update_cases)
    from evalJ_config [OF e] linsolve_config [OF l] update_x_config [OF u]
    have "Ffcn s3 = Ffcn s"
      by (simp add: same_config_def)
    then show ?thesis
      by (simp add: t)
  qed
  from a b c Init_numJ Jacobian_entry length_Jacobian show ?thesis
    by blast
qed

text \<open>
  \<open>f(x) = x - 1\<close> without any Jacobian callback: the finite difference is 1, the first
  evaluation of the Jacobian brings \<open>NFeval\<close> from 1 to 2, and the call ends with
  \<open>NFeval = 3\<close> and \<open>NJeval = 1\<close>.
\<close>

theorem Solve_numerical_Jacobian_witness:
  "numJ (mk_solver_numJ f_lin []) \<and> \<not> useDn (mk_solver_numJ f_lin []) \<and>
   JfcnSp (mk_solver_numJ f_lin []) = None \<and>
   Jacobian (fd_delta caps1) f_lin [0] (f_lin [0]) = [(0, 0, 1)] \<and>
   (0, 0, (f_lin ([0][0 := [0] ! 0 + fd_delta caps1 ([0] ! 0)]) ! 0 - f_lin [0] ! 0)
            / fd_delta caps1 ([0] ! 0)) \<in> set (Jacobian (fd_delta caps1) f_lin [0] (f_lin [0])) \<and>
   stats (map_sum id (\<lambda>s. (s, [0]))
            (evalJ caps1 (Solve_enter (mk_solver_numJ f_lin []) [0]) [0])) = Inr (0, 2, 1, 0, [0]) \<and>
   (case newton_update caps1 (Solve_enter (mk_solver_numJ f_lin []) [0]) [0] of
      Inr (t, y, Ldx) \<Rightarrow> y = [1] \<and> fx t = f_lin [1] | Inl e \<Rightarrow> False) \<and>
   stats (Solve caps1 (mk_solver_numJ f_lin []) [0] True) = Inr (0, 3, 1, 1, [1])"
proof -
  let ?s = "mk_solver_numJ f_lin []"
  let ?e = "Solve_enter ?s [0]"
  have i: "Init caps1 NlSolver_zero 1 f_lin None None False False [(''atol'', 1), (''rtol'', 1)]
             = Inr ?s"
    by (simp add: mk_solver_numJ_def Init_def read_prm_def Let_def)
  from Solve_numerical_Jacobian [where L = caps1 and o' = NlSolver_zero and n = 1
      and ffcn = f_lin and jdn = None and numj = False
      and prms = "[(''atol'', 1), (''rtol'', 1)]" and ?s0.0 = ?s and x = "[0]" and row = 0
      and col = 0 and delta = "fd_delta caps1" and ?fx0.0 = "f_lin [0]"] i
  have h1: "numJ ?s" "\<not> useDn ?s" "JfcnSp ?s = None" "neq ?s = 1"
    and r0: "(0, 0, (f_lin ([0][0 := [0] ! 0 + fd_delta caps1 ([0] ! 0)]) ! 0 - f_lin [0] ! 0)
               / fd_delta caps1 ([0] ! 0)) \<in> set (Jacobian (fd_delta caps1) f_lin [0] (f_lin [0]))"
    by simp_all
  from h1 have h2: "\<not> useDn ?e" "numJ ?e" "It ?e = 0 \<or> \<not> cteJac ?e" "neq ?e = 1"
    by (simp_all add: Solve_enter_def Let_def)
  have h3: "NFeval ?e = 1" "NJeval ?e = 0" "NFact ?e = 0" "It ?e = 0" "Ffcn ?e = f_lin"
    "fx ?e = f_lin [0]"
    by (simp_all add: run_defs mk_solver_numJ_def)
  from Solve_numerical_Jacobian [where L = caps1 and s = ?e and x = "[0]"] h2
  have "evalJ caps1 ?e [0] = Inr (?e\<lparr>Jtri := Jacobian (fd_delta caps1) (Ffcn ?e) [0] (fx ?e),
          NFeval := NFeval ?e + int (neq ?e), NJeval := NJeval ?e + 1\<rparr>)"
    by simp
  with h2 h3 have r1: "stats (map_sum id (\<lambda>s. (s, [0])) (evalJ caps1 ?e [0])) = Inr (0, 2, 1, 0, [0])"
    by (simp add: stats_def)
  have r2: "Jacobian (fd_delta caps1) f_lin [0] (f_lin [0]) = [(0, 0, 1)]"
    by (simp add: Jacobian_def Jacobian_col_def caps1_def f_lin_def Let_def upt1)
  obtain t where n: "newton_update caps1 ?e [0] = Inr (t, [1], 1)"
    by (simp add: run_defs mk_solver_numJ_def Jacobian_def Jacobian_col_def)
  from Solve_numerical_Jacobian [where L = caps1 and s = ?e and x = "[0]" and t = t
      and y = "[1]" and Ldx = 1] n h3
  have "fx t = f_lin [1]"
    by simp
  with n have r4: "case newton_update caps1 ?e [0] of
      Inr (t, y, Ldx) \<Rightarrow> y = [1] \<and> fx t = f_lin [1] | Inl e \<Rightarrow> False"
    by simp
  have r3: "stats (Solve caps1 ?s [0] True) = Inr (0, 3, 1, 1, [1])"
    by (simp add: run_defs mk_solver_numJ_def Jacobian_def Jacobian_col_def)
  from h1 r0 r1 r2 r3 r4 show ?thesis
    by blast
qed

subsection \<open>The scaling vector\<close>

text \<open>
  Claim C8. \<open>Solve\<close> computes the scaling vector once, on entry, from the input \<open>x\<close>:
  \<open>scal_i = atol + rtol * |x_i|\<close>. It is the same after any number of passes of the loop and
  in the solver that \<open>Solve\<close> returns, whatever \<open>x\<close> has become.
\<close>

theorem Solve_scal_once:
  "scal (Solve_enter s x) = VecScaleAbs (atol s) (rtol s) x \<and>
   (\<forall>i<length x. VecScaleAbs (atol s) (rtol s) x ! i = atol s + rtol s * \<bar>x ! i\<bar>) \<and>
   (passes L n (Solve_enter s x) x 0 = Some (t, y, l) \<longrightarrow>
      scal t = VecScaleAbs (atol s) (rtol s) x) \<and>
   (Solve L s x silent = Inr (s', x') \<longrightarrow> scal s' = VecScaleAbs (atol s) (rtol s) x)"
proof -
  have e: "scal (Solve_enter s x) = VecScaleAbs (atol s) (rtol s) x"
    by (simp add: Solve_enter_def Let_def)
  have v: "\<forall>i<length x. VecScaleAbs (atol s) (rtol s) x ! i = atol s + rtol s * \<bar>x ! i\<bar>"
    by (simp add: VecScaleAbs_def)
  have p: "scal t = VecScaleAbs (atol s) (rtol s) x"
    if "passes L n (Solve_enter s x) x 0 = Some (t, y, l)"
    using passes_config [OF that] e by simp
  have r: "scal s' = VecScaleAbs (atol s) (rtol s) x" if "Solve L s x silent = Inr (s', x')"
  proof -
    from that have "iterations L (Solve_enter s x) x 0 = Inr (s', x')"
      by (auto simp: Solve_def split: sum.splits if_splits)
    from iterations_scal [OF this] e show ?thesis
      by simp
  qed
  from e v p r show ?thesis
    by blast
qed

text \<open>
  A run from \<open>x = 0\<close> that ends at \<open>x = -3\<close>: the scaling vector is still the one of
  \<open>x = 0\<close>.
\<close>

theorem Solve_scal_once_witness:
  "loop_obs (passes caps1 2 (Solve_enter (mk_solver f_step True []) [0]) [0] 0)
     = Some (2, [- 2], 1) \<and>
   stats (Solve caps1 (mk_solver f_step True []) [0] True) = Inr (2, 4, 3, 3, [- 3]) \<and>
   VecScaleAbs (atol (mk_solver f_step True [])) (rtol (mk_solver f_step True [])) [0] = [1] \<and>
   (case Solve caps1 (mk_solver f_step True []) [0] True of
      Inr (s', x') \<Rightarrow> scal s' = [1] | Inl e \<Rightarrow> False)"
proof -
  let ?s = "mk_solver f_step True []"
  have h1: "loop_obs (passes caps1 2 (Solve_enter ?s [0]) [0] 0) = Some (2, [- 2], 1)"
    by (simp add: run_defs numeral_2_eq_2)
  then obtain t y l where h2: "passes caps1 2 (Solve_enter ?s [0]) [0] 0 = Some (t, y, l)"
    by (auto simp: loop_obs_def split: option.splits)
  have h3: "stats (Solve caps1 ?s [0] True) = Inr (2, 4, 3, 3, [- 3])"
    by (simp add: run_defs)
  then obtain s' x' where h4: "Solve caps1 ?s [0] True = Inr (s', x')"
    by (auto simp: stats_def split: sum.splits)
  have h5: "VecScaleAbs (atol ?s) (rtol ?s) [0] = [1]"
    by (simp add: run_defs)
  from Solve_scal_once [where L = caps1 and s = ?s and x = "[0]" and n = 2 and t = t and y = y
      and l = l and silent = True and s' = s' and x' = x'] h2 h4 h5
  have "scal t = [1]" and "scal s' = [1]"
    by simp_all
  with h1 h3 h4 h5 show ?thesis
    by simp
qed

subsection \<open>Convergence on the residual\<close>

text \<open>
  Claim C9 (amended). \<open>Solve\<close> also converges on the raw residual: whenever the largest
  \<open>|f_i(x)|\<close> is below \<open>ftol\<close> at the start of a pass through the loop, or after the
  update of a pass, the loop stops there and nothing else is changed. In particular, if
  the initial guess already satisfies the test and \<open>maxIt\<close> is not 0, \<open>Solve\<close> returns
  with \<open>x\<close> unchanged, \<open>NJeval = 0\<close> and \<open>NFeval = 1\<close>.
\<close>

theorem Solve_converges_on_residual:
  "(It s < maxIt s \<and> Largest (fx s) 1 < ftol s \<longrightarrow> iterations L s x lp = Inr (s, x)) \<and>
   (It s < maxIt s \<and> \<not> Largest (fx s) 1 < ftol s \<and>
      newton_update L s x = Inr (t, y, Ldx) \<and> Largest (fx t) 1 < ftol t
      \<longrightarrow> iterations L s x lp = Inr (t, y)) \<and>
   (maxIt s \<noteq> 0 \<and> Largest (Ffcn s x) 1 < ftol s
      \<longrightarrow> Solve L s x silent = Inr (Solve_enter s x, x) \<and>
          NJeval (Solve_enter s x) = 0 \<and> NFeval (Solve_enter s x) = 1)"
proof -
  have a: "iterations L s x lp = Inr (s, x)" if "It s < maxIt s" and "Largest (fx s) 1 < ftol s"
    for s :: "'a NlSolver" and x lp
    using that by (simp add: iterations.simps body_def)
  have b: "iterations L s x lp = Inr (t, y)"
    if "It s < maxIt s" and "\<not> Largest (fx s) 1 < ftol s"
      and "newton_update L s x = Inr (t, y, Ldx)" and "Largest (fx t) 1 < ftol t"
    using that by (simp add: iterations.simps body_def)
  have c: "Solve L s x silent = Inr (Solve_enter s x, x) \<and>
           NJeval (Solve_enter s x) = 0 \<and> NFeval (Solve_enter s x) = 1"
    if m: "maxIt s \<noteq> 0" and f: "Largest (Ffcn s x) 1 < ftol s"
  proof -
    let ?e = "Solve_enter s x"
    have e: "It ?e = 0" "maxIt ?e = maxIt s" "fx ?e = Ffcn s x" "ftol ?e = ftol s"
      "NJeval ?e = 0" "NFeval ?e = 1"
      by (simp_all add: Solve_enter_def Let_def)
    have "iterations L ?e x 0 = Inr (?e, x)"
    proof (cases "It ?e < maxIt ?e")
      case True
      with f e show ?thesis by (simp add: a)
    next
      case False
      then show ?thesis by (simp add: iterations.simps)
    qed
    with m e show ?thesis
      by (simp add: Solve_def)
  qed
  from a b c show ?thesis
    by blast
qed

text \<open>
  For \<open>f(x) = x - 1\<close>: from the root \<open>x = 1\<close> the call returns at once, and from
  \<open>x = 0\<close> the loop stops after one update, on the residual at \<open>x = 1\<close>.
\<close>

theorem Solve_converges_on_residual_witness:
  "maxIt (mk_solver f_lin True []) \<noteq> 0 \<and>
   Largest (Ffcn (mk_solver f_lin True []) [1]) 1 < ftol (mk_solver f_lin True []) \<and>
   stats (Solve caps1 (mk_solver f_lin True []) [1] True) = Inr (0, 1, 0, 0, [1]) \<and>
   \<not> Largest (fx (Solve_enter (mk_solver f_lin True []) [0])) 1
       < ftol (Solve_enter (mk_solver f_lin True []) [0]) \<and>
   stats (iterations caps1 (Solve_enter (mk_solver f_lin True []) [0]) [0] 0)
     = Inr (0, 2, 1, 1, [1])"
proof -
  let ?s = "mk_solver f_lin True []"
  let ?e = "Solve_enter ?s [0]"
  have h1: "maxIt ?s \<noteq> 0" and h2: "Largest (Ffcn ?s [1]) 1 < ftol ?s"
    by (simp_all add: run_defs)
  have h3: "It ?e < maxIt ?e" and h4: "\<not> Largest (fx ?e) 1 < ftol ?e"
    by (simp_all add: run_defs)
  obtain s1 where h5: "newton_update caps1 ?e [0] = Inr (s1, [1], 1)"
    and h6: "Largest (fx s1) 1 < ftol s1" and h7: "stats (Inr (s1, [1])) = Inr (0, 2, 1, 1, [1])"
    by (simp add: run_defs)
  from Solve_converges_on_residual [where s = ?s and L = caps1 and x = "[1]" and silent = True] h1 h2
  have "Solve caps1 ?s [1] True = Inr (Solve_enter ?s [1], [1])"
    "NJeval (Solve_enter ?s [1]) = 0" "NFeval (Solve_enter ?s [1]) = 1"
    by simp_all
  moreover have "It (Solve_enter ?s [1]) = 0" "NFact (Solve_enter ?s [1]) = 0"
    by (simp_all add: run_defs)
  ultimately have r1: "stats (Solve caps1 ?s [1] True) = Inr (0, 1, 0, 0, [1])"
    by (simp add: stats_def)
  from Solve_converges_on_residual [where s = ?e and L = caps1 and x = "[0]" and lp = 0
      and t = s1 and y = "[1]" and Ldx = 1] h3 h4 h5 h6
  have "iterations caps1 ?e [0] 0 = Inr (s1, [1])"
    by simp
  with h7 have r2: "stats (iterations caps1 ?e [0] 0) = Inr (0, 2, 1, 1, [1])"
    by simp
  from h1 h2 h4 r1 r2 show ?thesis
    by simp
qed

text \<open>
  Claim C9 as stated fails when \<open>maxIt = 0\<close>: the loop is not entered, no test is made, and
  \<open>Solve\<close> panics with "cannot converge after 0 iterations" although the initial guess is a
  root.
\<close>

theorem Solve_zero_maxIt_counterexample:
  "Largest (Ffcn (mk_solver f_lin True [(''maxIt'', 0)]) [1]) 1
     < ftol (mk_solver f_lin True [(''maxIt'', 0)]) \<and>
   Solve caps1 (mk_solver f_lin True [(''maxIt'', 0)]) [1] True = Inl (CannotConverge 0)"
  by (simp add: run_defs)

subsection \<open>The counters\<close>

text \<open>
  Claim C10. Every call of \<open>Solve\<close> resets the statistics before it iterates: the loop is
  entered with \<open>NFeval = 1\<close> (the evaluation of the function at the initial \<open>x\<close>) and
  \<open>NJeval = 0\<close>; the counters a previous call left in the struct have no influence on the
  result, so they never accumulate over successive calls; and after a call that returns,
  \<open>NFeval\<close> is at least 1 (the line search reporting a count that is not negative).
\<close>

theorem Solve_resets_counters:
  "NFeval (Solve_enter s x) = 1 \<and> NJeval (Solve_enter s x) = 0 \<and>
   Solve L (s\<lparr>NFeval := a, NJeval := b\<rparr>) x silent = Solve L s x silent \<and>
   (LineSearch_counts L \<and> Solve L s x silent = Inr (s', x') \<longrightarrow> 1 \<le> NFeval s')"
proof -
  have "1 \<le> NFeval s'" if c: "LineSearch_counts L" and r: "Solve L s x silent = Inr (s', x')"
  proof -
    from r have "iterations L (Solve_enter s x) x 0 = Inr (s', x')"
      by (auto simp: Solve_def split: sum.splits if_splits)
    moreover have "1 \<le> NFeval (Solve_enter s x)"
      by (simp add: Solve_enter_def Let_def)
    ultimately show ?thesis
      using c by (blast intro: iterations_NFeval)
  qed
  moreover have "NFeval (Solve_enter s x) = 1" and "NJeval (Solve_enter s x) = 0"
    by (simp_all add: Solve_enter_def Let_def)
  moreover have "Solve L (s\<lparr>NFeval := a, NJeval := b\<rparr>) x silent = Solve L s x silent"
    by (simp add: Solve_def Solve_enter_counters_irrelevant)
  ultimately show ?thesis
    by blast
qed

text \<open>
  A run with three Newton updates, from a fresh struct and from one whose counters hold
  100 and 50: both end with \<open>NFeval = 4\<close> and \<open>NJeval = 3\<close>.
\<close>

theorem Solve_resets_counters_witness:
  "LineSearch_counts caps1 \<and>
   stats (Solve caps1 (mk_solver f_step True []) [0] True) = Inr (2, 4, 3, 3, [- 3]) \<and>
   stats (Solve caps1 ((mk_solver f_step True [])\<lparr>NFeval := 100, NJeval := 50\<rparr>) [0] True)
     = Inr (2, 4, 3, 3, [- 3])"
proof -
  have r: "stats (Solve caps1 (mk_solver f_step True []) [0] True) = Inr (2, 4, 3, 3, [- 3])"
    by (simp add: run_defs)
  then obtain s' x' where "Solve caps1 (mk_solver f_step True []) [0] True = Inr (s', x')"
    by (auto simp: stats_def split: sum.splits)
  with Solve_resets_counters [where s = "mk_solver f_step True []" and x = "[0]" and L = caps1
      and a = 100 and b = 50 and silent = True and s' = s' and x' = x']
    LineSearch_counts_caps1 r
  show ?thesis
    by simp
qed

end
